theory Spec2Isabelle
  imports Complex_Main "HOL-Library.Word" "HOL-Library.AList" "HOL-Library.Sublist"
    "HOL-Library.Multiset"
begin

section \<open>Data model\<close>

text \<open>
  The program is a single Go package. Its \<^verbatim>\<open>int\<close> is the 64-bit machine integer
  of the usual build targets: addition wraps around, comparison and printing read the
  value as two's complement (\<open>sint\<close>). Its \<^verbatim>\<open>float64\<close> is IEEE 754 binary64.
  The field \<open>Score\<close> only ever holds whole numbers: \<open>calculateScore\<close> converts,
  multiplies and adds integers, and every one of these operations rounds its exact
  result to the nearest binary64 number (\<open>binary64\<close> below). The field \<open>LcP\<close> holds
  fractional hours and is kept in exact real arithmetic: the rounding of the lifecycle
  average is not modelled, and the statements below mention \<open>LcP\<close> only at values
  that binary64 holds exactly.
\<close>

type_synonym go_int = "64 word"

text \<open>
  \<^verbatim>\<open>map[string]int\<close>: an association list with distinct keys; \<open>None\<close> is the
  nil map. The position of an entry in the list carries no meaning: every \<^verbatim>\<open>range\<close>
  over a map goes through \<open>go_range\<close> below.
\<close>

type_synonym repo_map = "(string \<times> go_int) list"

record UserMetrics =
  Commits :: go_int
  HoC :: go_int
  Issues :: go_int
  LcP :: real
  Msgs :: go_int
  Pulls :: go_int
  Reviews :: go_int
  Score :: real
  Repos :: "repo_map option"

text \<open>The zero value of the struct: what \<^verbatim>\<open>metrics[user]\<close> reads for an absent key.\<close>

definition zeroUserMetrics :: UserMetrics where
  "zeroUserMetrics =
     \<lparr>Commits = 0, HoC = 0, Issues = 0, LcP = 0, Msgs = 0, Pulls = 0, Reviews = 0,
      Score = 0, Repos = None\<rparr>"

text \<open>The entries a \<^verbatim>\<open>range\<close> over the map visits: none for the nil map.\<close>

definition mapEntries :: "repo_map option \<Rightarrow> repo_map" where
  "mapEntries repos = (case repos of None \<Rightarrow> [] | Some m \<Rightarrow> m)"

text \<open>\<^verbatim>\<open>m[k]\<close> on a \<^verbatim>\<open>map[string]int\<close>: the zero value for an absent key.\<close>

definition map_index :: "repo_map \<Rightarrow> string \<Rightarrow> go_int" where
  "map_index m k = (case map_of m k of None \<Rightarrow> 0 | Some v \<Rightarrow> v)"

text \<open>\<^verbatim>\<open>metrics.Repos[repo] += hoc\<close>\<close>

definition map_add_at :: "string \<times> go_int \<Rightarrow> repo_map \<Rightarrow> repo_map" where
  "map_add_at e m = AList.update (fst e) (map_index m (fst e) + snd e) m"


section \<open>The remote API\<close>

text \<open>
  The fields of the go-github values that the program reads (and \<open>Deletions\<close>,
  which it does not read but which the scenarios need). A nil pointer is \<open>None\<close>.
  \<open>Author\<close> is the login of \<^verbatim>\<open>commit.Author\<close> (\<^verbatim>\<open>GetLogin\<close> of a non-nil author),
  \<open>Parents\<close> the parent list (nil is the empty list). The numeric getters
  (\<^verbatim>\<open>GetAdditions\<close>, \<^verbatim>\<open>GetChanges\<close>, \<^verbatim>\<open>GetComments\<close>) read 0 for a nil field, and
  \<^verbatim>\<open>GetRepositoryURL\<close> reads the empty string, so those fields hold the value read.
  \<open>IsPullRequest\<close> is \<^verbatim>\<open>PullRequestLinks != nil\<close>. Timestamps are seconds since the epoch.
\<close>

record RepositoryCommit =
  SHA :: string
  Author :: "string option"
  Parents :: "string list"

record CommitFile =
  Additions :: go_int
  Deletions :: go_int
  Changes :: go_int

record Issue =
  IsPullRequest :: bool
  CreatedAt :: "int option"
  ClosedAt :: "int option"
  Comments :: go_int
  RepositoryURL :: string

text \<open>
  One call of the client, as far as the program determines it: the endpoint, the
  arguments the program passes and the page of the list options (0 while
  \<^verbatim>\<open>opts.Page\<close> is unset). Page size, sort order and the \<^verbatim>\<open>Since\<close> time are the same
  in every call of an endpoint and are left out.
\<close>

datatype request =
    ListCommitsReq string string string nat
  | GetCommitReq string string string
  | ListByRepoReq string string string string nat
  | SearchIssuesReq string nat

text \<open>
  What a paginated call returns: \<open>Failure status\<close> is a non-nil error, with the HTTP
  status of the response when there is one; \<open>Success result nextPage\<close> is a nil
  error with the decoded result and \<^verbatim>\<open>resp.NextPage\<close>.
\<close>

datatype 'a reply = Failure "nat option" | Success 'a nat

text \<open>
  The remote service is any deterministic function of the calls made so far and the
  present call, so it may fail on one attempt and answer the next. Every call is
  appended to the trace that the program threads through.
\<close>

record Client =
  ListCommits :: "request list \<Rightarrow> string \<Rightarrow> string \<Rightarrow> string \<Rightarrow> nat \<Rightarrow> RepositoryCommit list reply"
  GetCommit :: "request list \<Rightarrow> string \<Rightarrow> string \<Rightarrow> string \<Rightarrow> CommitFile list option"
  ListByRepo :: "request list \<Rightarrow> string \<Rightarrow> string \<Rightarrow> string \<Rightarrow> string \<Rightarrow> nat \<Rightarrow> Issue list reply"
  SearchIssues :: "request list \<Rightarrow> string \<Rightarrow> nat \<Rightarrow> Issue list reply"

definition callListCommits ::
  "Client \<Rightarrow> string \<Rightarrow> string \<Rightarrow> string \<Rightarrow> nat \<Rightarrow> request list
     \<Rightarrow> RepositoryCommit list reply \<times> request list" where
  "callListCommits c owner repo author page lg =
     (ListCommits c lg owner repo author page, lg @ [ListCommitsReq owner repo author page])"

definition callGetCommit ::
  "Client \<Rightarrow> string \<Rightarrow> string \<Rightarrow> string \<Rightarrow> request list
     \<Rightarrow> CommitFile list option \<times> request list" where
  "callGetCommit c owner repo sha lg =
     (GetCommit c lg owner repo sha, lg @ [GetCommitReq owner repo sha])"

definition callListByRepo ::
  "Client \<Rightarrow> string \<Rightarrow> string \<Rightarrow> string \<Rightarrow> string \<Rightarrow> nat \<Rightarrow> request list
     \<Rightarrow> Issue list reply \<times> request list" where
  "callListByRepo c owner repo creator state page lg =
     (ListByRepo c lg owner repo creator state page,
      lg @ [ListByRepoReq owner repo creator state page])"

definition callSearchIssues ::
  "Client \<Rightarrow> string \<Rightarrow> nat \<Rightarrow> request list \<Rightarrow> Issue list reply \<times> request list" where
  "callSearchIssues c query page lg =
     (SearchIssues c lg query page, lg @ [SearchIssuesReq query page])"

text \<open>
  The package-level settings the collectors read. \<open>since\<close> is
  \<^verbatim>\<open>time.Now().AddDate(0, 0, -days).Format("2006-01-02")\<close> and \<open>sinceStamp\<close> the
  \<^verbatim>\<open>%s\<close> rendering of the same time value (the first discovery query prints it
  unformatted); the clock itself is not modelled. \<open>rangeSeed\<close> fixes, per user, the
  order in which the runtime ranges over the discovery map, and \<open>renderOK\<close> says
  whether \<^verbatim>\<open>renderTemplate\<close> can parse the template and create the output file.
\<close>

record Config =
  verbose :: bool
  organization :: string
  since :: string
  sinceStamp :: string
  rangeSeed :: "string \<Rightarrow> nat list"
  renderOK :: bool

text \<open>The ways the process ends early: two runtime panics and the two \<^verbatim>\<open>log.Fatalf\<close> exits.\<close>

datatype abort =
    PanicInterfaceConversion
  | PanicNilDereference
  | FatalUnknownMetric
  | FatalRenderTemplate

text \<open>
  A computation against the remote: \<open>None\<close> when it never returns, otherwise the
  trace it leaves and its value or the way it ended the process.
\<close>

type_synonym 'a run = "((abort + 'a) \<times> request list) option"

section \<open>Strings and maps of the Go runtime\<close>

text \<open>\<^verbatim>\<open>strings.Split(s, sep)\<close> for a one-byte separator: one more part than separators.\<close>

fun Split :: "string \<Rightarrow> char \<Rightarrow> string list" where
  "Split [] sep = [[]]"
| "Split (c # cs) sep =
     (if c = sep then [] # Split cs sep
      else (case Split cs sep of [] \<Rightarrow> [[c]] | p # ps \<Rightarrow> (c # p) # ps))"

text \<open>\<^verbatim>\<open>strings.Join(elems, sep)\<close>\<close>

fun Join :: "string list \<Rightarrow> string \<Rightarrow> string" where
  "Join [] sep = []"
| "Join [x] sep = x"
| "Join (x # y # ys) sep = x @ sep @ Join (y # ys) sep"

text \<open>\<^verbatim>\<open>strings.HasPrefix(s, p)\<close>\<close>

definition HasPrefix :: "string \<Rightarrow> string \<Rightarrow> bool" where
  "HasPrefix s p = prefix p s"

text \<open>The verb \<^verbatim>\<open>%d\<close> of \<^verbatim>\<open>fmt.Sprintf\<close>: decimal digits, a minus sign when negative.\<close>

fun digits :: "nat \<Rightarrow> string" where
  "digits n =
     (if n < 10 then [''0123456789'' ! n]
      else digits (n div 10) @ [''0123456789'' ! (n mod 10)])"

definition fmt_d :: "go_int \<Rightarrow> string" where
  "fmt_d i = (if sint i < 0 then CHR ''-'' # digits (nat (- sint i)) else digits (nat (sint i)))"

text \<open>
  \<^verbatim>\<open>for k := range m\<close>: the runtime visits every entry once, in an order it chooses.
  The choice is a seed: each number picks the next entry among those not yet visited.
  Every order of the entries is the result of some seed.
\<close>

fun go_range :: "nat list \<Rightarrow> 'a list \<Rightarrow> 'a list" where
  "go_range [] xs = xs"
| "go_range (n # ns) [] = []"
| "go_range (n # ns) (x # xs) =
     (let i = n mod length (x # xs)
      in (x # xs) ! i # go_range ns (take i (x # xs) @ drop (Suc i) (x # xs)))"

text \<open>
  \<^verbatim>\<open>sort.Slice(s, less)\<close>: the slice reordered so that no element is \<open>less\<close> than one
  before it. The library promises no order among elements neither of which is less
  than the other; the model is an insertion sort that keeps them as they came, and
  together with \<open>go_range\<close> on the input every outcome of the library is covered.
\<close>

fun insertBy :: "('a \<Rightarrow> 'a \<Rightarrow> bool) \<Rightarrow> 'a \<Rightarrow> 'a list \<Rightarrow> 'a list" where
  "insertBy lt x [] = [x]"
| "insertBy lt x (y # ys) =
     (if lt y x then y # insertBy lt x ys else x # y # ys)"

definition sortSlice :: "('a \<Rightarrow> 'a \<Rightarrow> bool) \<Rightarrow> 'a list \<Rightarrow> 'a list" where
  "sortSlice lt xs = foldr (insertBy lt) xs []"

section \<open>Floating-point arithmetic\<close>

text \<open>
  Rounding of a whole number to binary64: round to nearest, ties to even, with a
  significand of 53 bits. A number below \<open>2 ^ 53\<close> in magnitude is kept; a number
  of \<open>53 + s\<close> bits loses its \<open>s\<close> low bits, rounded at half of \<open>2 ^ s\<close>. The
  numbers of this program stay below \<open>2 ^ 73\<close>, far from the largest binary64 number.
  \<open>bitLen\<close> is the number of bits of a natural number.
\<close>

fun bitLen :: "nat \<Rightarrow> nat" where
  "bitLen n = (if n = 0 then 0 else Suc (bitLen (n div 2)))"

declare bitLen.simps [simp del]

definition roundEven :: "nat \<Rightarrow> nat \<Rightarrow> nat" where
  "roundEven s n =
     (let q = n div 2 ^ s; r = n mod 2 ^ s; half = 2 ^ s div 2
      in (if r < half \<or> (r = half \<and> even q) then q else q + 1) * 2 ^ s)"

definition binary64 :: "int \<Rightarrow> int" where
  "binary64 x =
     (if \<bar>x\<bar> < 2 ^ 53 then x
      else sgn x * int (roundEven (bitLen (nat \<bar>x\<bar>) - 53) (nat \<bar>x\<bar>)))"

text \<open>
  The conversion \<^verbatim>\<open>float64(n)\<close> of an \<^verbatim>\<open>int\<close>, and the product and the sum of two
  \<^verbatim>\<open>float64\<close> that hold whole numbers: the exact result, rounded. Every operation
  rounds by itself, as the compiler for amd64 has it by default; Go allows a compiler
  to fuse a product with the sum that follows into one rounding.
\<close>

definition float64 :: "go_int \<Rightarrow> int" where
  "float64 n = binary64 (sint n)"

definition mulFloat64 :: "int \<Rightarrow> int \<Rightarrow> int" where
  "mulFloat64 x y = binary64 (x * y)"

definition addFloat64 :: "int \<Rightarrow> int \<Rightarrow> int" where
  "addFloat64 x y = binary64 (x + y)"

section \<open>Repository identifiers\<close>

text \<open>
  \<^verbatim>\<open>parts := strings.Split(repo, "/")
  if len(parts) != 2 { return "", "" }
  return parts[0], parts[1]\<close>
\<close>

definition parseRepo :: "string \<Rightarrow> string \<times> string" where
  "parseRepo repo =
     (let parts = Split repo CHR ''/''
      in if length parts \<noteq> 2 then ([], []) else (parts ! 0, parts ! 1))"

text \<open>
  \<^verbatim>\<open>parts := strings.Split(repoURL, "/")
  if len(parts) < 2 { return "" }
  return fmt.Sprintf("%s/%s", parts[len(parts)-2], parts[len(parts)-1])\<close>
\<close>

definition parseRepoURL :: "string \<Rightarrow> string" where
  "parseRepoURL repoURL =
     (let parts = Split repoURL CHR ''/''
      in if length parts < 2 then []
         else parts ! (length parts - 2) @ ''/'' @ parts ! (length parts - 1))"

section \<open>Retry and pagination\<close>

text \<open>
  \<open>retryWithBackoff\<close> calls \<open>fn\<close> up to \<open>attempts\<close> times and returns the first
  success. After a failure with status 403 it sleeps until the rate limit resets; the
  clock is not modelled, so the sleep leaves no mark. When every attempt failed it
  returns \<^verbatim>\<open>nil, nil, err\<close>: a failure with no result and no response. Every call
  site passes 5 attempts.
\<close>

fun retryWithBackoff ::
  "nat \<Rightarrow> (request list \<Rightarrow> 'a reply \<times> request list) \<Rightarrow> request list
     \<Rightarrow> 'a reply \<times> request list" where
  "retryWithBackoff 0 fn lg = (Failure None, lg)"
| "retryWithBackoff (Suc attempts) fn lg =
     (case fn lg of
        (Success result nextPage, lg') \<Rightarrow> (Success result nextPage, lg')
      | (Failure status, lg') \<Rightarrow> retryWithBackoff attempts fn lg')"

text \<open>
  The ten \<^verbatim>\<open>for { ... }\<close> loops of the collectors and of the discovery have one shape:
  \<^verbatim>\<open>
  for {
      result, resp, err := retryWithBackoff(ctx, 5, time.Second, func() ... { return <call>(..., opts) })
      if err != nil { <log>; <leave the loop> }
      for _, item := range <result> { <body> }
      if resp.NextPage == 0 { break }
      opts.Page = resp.NextPage
  }\<close>
  \<open>paginate fetch body page acc lg\<close> is that loop from \<^verbatim>\<open>opts.Page = page\<close> with the
  accumulated value \<open>acc\<close>. It reports how the loop was left, the value accumulated,
  the last value of \<^verbatim>\<open>opts.Page\<close> and the trace. The remote may signal a next page
  forever, so the loop need not return.
\<close>

datatype 'acc loop_exit = Finished 'acc | FetchFailed 'acc | Aborted abort

partial_function (option) paginate ::
  "(nat \<Rightarrow> request list \<Rightarrow> 'p reply \<times> request list) \<Rightarrow>
   ('p \<Rightarrow> 'acc \<Rightarrow> request list \<Rightarrow> (abort + 'acc) \<times> request list) \<Rightarrow>
   nat \<Rightarrow> 'acc \<Rightarrow> request list \<Rightarrow> ('acc loop_exit \<times> nat \<times> request list) option"
where
  "paginate fetch body page acc lg =
     (case fetch page lg of
        (Failure status, lg1) \<Rightarrow> Some (FetchFailed acc, page, lg1)
      | (Success result nextPage, lg1) \<Rightarrow>
          (case body result acc lg1 of
             (Inl e, lg2) \<Rightarrow> Some (Aborted e, page, lg2)
           | (Inr acc', lg2) \<Rightarrow>
               if nextPage = 0 then Some (Finished acc', page, lg2)
               else paginate fetch body nextPage acc' lg2))"

text \<open>A page body that only computes: no call, no panic.\<close>

definition pureBody ::
  "('p \<Rightarrow> 'acc \<Rightarrow> 'acc) \<Rightarrow> 'p \<Rightarrow> 'acc \<Rightarrow> request list \<Rightarrow> (abort + 'acc) \<times> request list" where
  "pureBody f result acc lg = (Inr (f result acc), lg)"

text \<open>
  What a collector returns after its loop: \<open>onDone\<close> after the \<^verbatim>\<open>break\<close>,
  \<open>onError\<close> in the \<^verbatim>\<open>err != nil\<close> branch.
\<close>

definition leave ::
  "('acc \<Rightarrow> abort + 'r) \<Rightarrow> ('acc \<Rightarrow> abort + 'r)
     \<Rightarrow> ('acc loop_exit \<times> nat \<times> request list) option \<Rightarrow> 'r run" where
  "leave onDone onError r =
     (case r of
        None \<Rightarrow> None
      | Some (Finished acc, page, lg) \<Rightarrow> Some (onDone acc, lg)
      | Some (FetchFailed acc, page, lg) \<Rightarrow> Some (onError acc, lg)
      | Some (Aborted e, page, lg) \<Rightarrow> Some (Inl e, lg))"

section \<open>Metric collectors\<close>

text \<open>\<^verbatim>\<open>return commit.Parents != nil && len(commit.Parents) > 1\<close>\<close>

definition isMergeCommit :: "RepositoryCommit \<Rightarrow> bool" where
  "isMergeCommit commit = (length (Parents commit) > 1)"

text \<open>
  The filter of both commit collectors:
  \<^verbatim>\<open>commit.Author != nil && commit.Author.GetLogin() == user && !isMergeCommit(commit)\<close>
\<close>

definition countedCommit :: "string \<Rightarrow> RepositoryCommit \<Rightarrow> bool" where
  "countedCommit user commit =
     ((case Author commit of None \<Rightarrow> False | Some login \<Rightarrow> login = user)
      \<and> \<not> isMergeCommit commit)"

definition getCommits :: "Client \<Rightarrow> string \<Rightarrow> string \<Rightarrow> string \<Rightarrow> request list \<Rightarrow> go_int run" where
  "getCommits c owner repo user lg =
     leave Inr Inr
       (paginate (\<lambda>page. retryWithBackoff 5 (callListCommits c owner repo user page))
          (pureBody (fold (\<lambda>commit commits.
             if countedCommit user commit then commits + 1 else commits)))
          0 0 lg)"

text \<open>
  \<open>getHoC\<close> fetches the detail of each counted commit, once and without retry; a
  failure there skips the commit. Each file adds \<^verbatim>\<open>file.GetAdditions() + file.GetChanges()\<close>.
\<close>

definition hocCommit ::
  "Client \<Rightarrow> string \<Rightarrow> string \<Rightarrow> string \<Rightarrow> RepositoryCommit
     \<Rightarrow> go_int \<times> request list \<Rightarrow> go_int \<times> request list" where
  "hocCommit c owner repo user commit st =
     (case st of (hoc, lg) \<Rightarrow>
        if countedCommit user commit then
          (case callGetCommit c owner repo (SHA commit) lg of
             (None, lg') \<Rightarrow> (hoc, lg')
           | (Some files, lg') \<Rightarrow>
               (fold (\<lambda>file h. h + (Additions file + Changes file)) files hoc, lg'))
        else (hoc, lg))"

definition getHoC :: "Client \<Rightarrow> string \<Rightarrow> string \<Rightarrow> string \<Rightarrow> request list \<Rightarrow> go_int run" where
  "getHoC c owner repo user lg =
     leave Inr Inr
       (paginate (\<lambda>page. retryWithBackoff 5 (callListCommits c owner repo user page))
          (\<lambda>commitList hoc lg1.
             case fold (hocCommit c owner repo user) commitList (hoc, lg1) of
               (hoc', lg2) \<Rightarrow> (Inr hoc', lg2))
          0 0 lg)"

text \<open>\<open>getIssues\<close> lists by creator with the state left unset and skips pull requests.\<close>

definition getIssues :: "Client \<Rightarrow> string \<Rightarrow> string \<Rightarrow> string \<Rightarrow> request list \<Rightarrow> go_int run" where
  "getIssues c owner repo user lg =
     leave Inr Inr
       (paginate (\<lambda>page. retryWithBackoff 5 (callListByRepo c owner repo user [] page))
          (pureBody (fold (\<lambda>issue issues.
             if \<not> IsPullRequest issue then issues + 1 else issues)))
          0 0 lg)"

text \<open>
  \<open>getLcP\<close> keeps \<open>(totalTime, cnt)\<close>, the source's \<^verbatim>\<open>totalTime\<close> and
  \<^verbatim>\<open>count\<close>; \<^verbatim>\<open>ClosedAt.Sub(CreatedAt).Hours()\<close> is the difference in hours. A
  failed fetch returns 0.0 whatever was accumulated; no pull request found returns
  0.0 as well.
\<close>

definition lcpIssue :: "Issue \<Rightarrow> real \<times> go_int \<Rightarrow> real \<times> go_int" where
  "lcpIssue issue st =
     (case st of (totalTime, cnt) \<Rightarrow>
        if IsPullRequest issue then
          (case (CreatedAt issue, ClosedAt issue) of
             (Some createdAt, Some closedAt) \<Rightarrow>
               (totalTime + real_of_int (closedAt - createdAt) / 3600, cnt + 1)
           | _ \<Rightarrow> (totalTime, cnt))
        else (totalTime, cnt))"

text \<open>
  \<^verbatim>\<open>if count == 0 { return 0.0 }
  averageLifecycle := totalTime / float64(count)\<close>
\<close>

definition lcpResult :: "real \<times> go_int \<Rightarrow> real" where
  "lcpResult st =
     (case st of (totalTime, cnt) \<Rightarrow>
        if cnt = 0 then 0 else totalTime / real_of_int (sint cnt))"

definition getLcP :: "Client \<Rightarrow> string \<Rightarrow> string \<Rightarrow> string \<Rightarrow> request list \<Rightarrow> real run" where
  "getLcP c owner repo user lg =
     leave (\<lambda>st. Inr (lcpResult st)) (\<lambda>st. Inr 0)
       (paginate (\<lambda>page. retryWithBackoff 5 (callListByRepo c owner repo user ''closed'' page))
          (pureBody (fold lcpIssue))
          0 (0, 0) lg)"

text \<open>
  \<^verbatim>\<open>fmt.Sprintf("repo:%s/%s is:pr commenter:%s created:>%s", owner, repo, user, <since>)\<close>
\<close>

definition msgsQuery :: "Config \<Rightarrow> string \<Rightarrow> string \<Rightarrow> string \<Rightarrow> string" where
  "msgsQuery cfg owner repo user =
     ''repo:'' @ owner @ ''/'' @ repo @ '' is:pr commenter:'' @ user @ '' created:>'' @ since cfg"

definition getMsgs ::
  "Config \<Rightarrow> Client \<Rightarrow> string \<Rightarrow> string \<Rightarrow> string \<Rightarrow> request list \<Rightarrow> go_int run" where
  "getMsgs cfg c owner repo user lg =
     leave Inr Inr
       (paginate (\<lambda>page. retryWithBackoff 5 (callSearchIssues c (msgsQuery cfg owner repo user) page))
          (pureBody (fold (\<lambda>pr msgs. msgs + Comments pr)))
          0 0 lg)"

text \<open>
  \<^verbatim>\<open>fmt.Sprintf("repo:%s/%s is:pr author:%s merged:>%s", owner, repo, user, <since>)\<close>
\<close>

definition pullsQuery :: "Config \<Rightarrow> string \<Rightarrow> string \<Rightarrow> string \<Rightarrow> string" where
  "pullsQuery cfg owner repo user =
     ''repo:'' @ owner @ ''/'' @ repo @ '' is:pr author:'' @ user @ '' merged:>'' @ since cfg"

definition getPulls ::
  "Config \<Rightarrow> Client \<Rightarrow> string \<Rightarrow> string \<Rightarrow> string \<Rightarrow> request list \<Rightarrow> go_int run" where
  "getPulls cfg c owner repo user lg =
     leave Inr Inr
       (paginate (\<lambda>page. retryWithBackoff 5 (callSearchIssues c (pullsQuery cfg owner repo user) page))
          (pureBody (fold (\<lambda>issue pulls.
             if IsPullRequest issue \<and> ClosedAt issue \<noteq> None then pulls + 1 else pulls)))
          0 0 lg)"

text \<open>
  \<^verbatim>\<open>fmt.Sprintf("repo:%s/%s reviewed-by:%s is:pr merged:>%s", owner, repo, user, <since>)\<close>

  \<open>getReviews\<close> differs from its siblings in two places. It converts the result before
  it looks at the error:
  \<^verbatim>\<open>
  result, resp, err := retryWithBackoff(...)
  issues := result.(*github.IssuesSearchResult)
  if err != nil { log.Printf(...); return reviewsCount }\<close>
  After a failed fetch \<open>result\<close> is the nil interface and the conversion panics, so
  the \<^verbatim>\<open>err != nil\<close> branch is never reached. And its verbose log line calls
  \<^verbatim>\<open>issue.ClosedAt.String()\<close> with no nil check, which panics on a nil \<open>ClosedAt\<close>.
\<close>

definition reviewsQuery :: "Config \<Rightarrow> string \<Rightarrow> string \<Rightarrow> string \<Rightarrow> string" where
  "reviewsQuery cfg owner repo user =
     ''repo:'' @ owner @ ''/'' @ repo @ '' reviewed-by:'' @ user @ '' is:pr merged:>'' @ since cfg"

fun reviewsPage :: "Config \<Rightarrow> Issue list \<Rightarrow> go_int \<Rightarrow> abort + go_int" where
  "reviewsPage cfg [] reviewsCount = Inr reviewsCount"
| "reviewsPage cfg (issue # rest) reviewsCount =
     (let reviewsCount' = reviewsCount + 1
      in if verbose cfg \<and> ClosedAt issue = None then Inl PanicNilDereference
         else reviewsPage cfg rest reviewsCount')"

definition getReviews ::
  "Config \<Rightarrow> Client \<Rightarrow> string \<Rightarrow> string \<Rightarrow> string \<Rightarrow> request list \<Rightarrow> go_int run" where
  "getReviews cfg c owner repo user lg =
     leave Inr (\<lambda>reviewsCount. Inl PanicInterfaceConversion)
       (paginate (\<lambda>page. retryWithBackoff 5 (callSearchIssues c (reviewsQuery cfg owner repo user) page))
          (\<lambda>issues reviewsCount lg1. (reviewsPage cfg issues reviewsCount, lg1))
          0 0 lg)"

section \<open>Repository discovery\<close>

text \<open>
  The body of all three discovery loops:
  \<^verbatim>\<open>
  if issue.IsPullRequest() {
      repoFullName := parseRepoURL(issue.GetRepositoryURL())
      if repoFullName != "" && (organization == "" || strings.HasPrefix(repoFullName, organization+"/")) {
          reposMap[repoFullName] = true
      }
  }\<close>
\<close>

definition discoverIssue :: "Config \<Rightarrow> Issue \<Rightarrow> (string \<times> bool) list \<Rightarrow> (string \<times> bool) list" where
  "discoverIssue cfg issue reposMap =
     (if IsPullRequest issue then
        (let repoFullName = parseRepoURL (RepositoryURL issue)
         in if repoFullName \<noteq> [] \<and>
               (organization cfg = [] \<or> HasPrefix repoFullName (organization cfg @ ''/''))
            then AList.update repoFullName True reposMap
            else reposMap)
      else reposMap)"

text \<open>The results that the body enters into the map.\<close>

definition discovers :: "Config \<Rightarrow> Issue \<Rightarrow> bool" where
  "discovers cfg issue =
     (IsPullRequest issue \<and> parseRepoURL (RepositoryURL issue) \<noteq> [] \<and>
      (organization cfg = [] \<or>
       HasPrefix (parseRepoURL (RepositoryURL issue)) (organization cfg @ ''/'')))"

text \<open>
  The value a loop leaves behind when it is left by \<^verbatim>\<open>break\<close>. The body of the
  discovery loops never panics, so the default is never read.
\<close>

fun exitValue :: "'acc \<Rightarrow> 'acc loop_exit \<Rightarrow> 'acc" where
  "exitValue d (Finished acc) = acc"
| "exitValue d (FetchFailed acc) = acc"
| "exitValue d (Aborted e) = d"

text \<open>
  The three queries:
  \<^verbatim>\<open>fmt.Sprintf("author:%s created:>%s", user, since)\<close>,
  \<^verbatim>\<open>fmt.Sprintf("commenter:%s created:>%s", user, since.Format("2006-01-02"))\<close>,
  \<^verbatim>\<open>fmt.Sprintf("reviewed-by:%s created:>%s", user, since.Format("2006-01-02"))\<close>.
\<close>

definition authoredQuery :: "Config \<Rightarrow> string \<Rightarrow> string" where
  "authoredQuery cfg user = ''author:'' @ user @ '' created:>'' @ sinceStamp cfg"

definition commentedQuery :: "Config \<Rightarrow> string \<Rightarrow> string" where
  "commentedQuery cfg user = ''commenter:'' @ user @ '' created:>'' @ since cfg"

definition reviewedQuery :: "Config \<Rightarrow> string \<Rightarrow> string" where
  "reviewedQuery cfg user = ''reviewed-by:'' @ user @ '' created:>'' @ since cfg"

text \<open>
  \<open>getUserRepositories\<close> runs three loops over one map. A failed fetch leaves the
  loop with \<^verbatim>\<open>break\<close> and the next query follows. The first two loops build fresh
  search options (page unset). The third assigns a new query only and goes on with
  the options of the second loop, so it starts at the page the second loop requested
  last. The keys of the map are returned in the order the runtime ranges over it.
\<close>

definition getUserRepositories ::
  "Config \<Rightarrow> Client \<Rightarrow> string \<Rightarrow> request list \<Rightarrow> (string list \<times> request list) option" where
  "getUserRepositories cfg c user lg =
     (let body = pureBody (fold (discoverIssue cfg))
      in case paginate
                (\<lambda>page. retryWithBackoff 5
                   (callSearchIssues c (authoredQuery cfg user) page))
                body 0 [] lg of
           None \<Rightarrow> None
         | Some (exit1, page1, lg1) \<Rightarrow>
        (case paginate
                (\<lambda>page. retryWithBackoff 5
                   (callSearchIssues c (commentedQuery cfg user) page))
                body 0 (exitValue [] exit1) lg1 of
           None \<Rightarrow> None
         | Some (exit2, page2, lg2) \<Rightarrow>
        (case paginate
                (\<lambda>page. retryWithBackoff 5
                   (callSearchIssues c (reviewedQuery cfg user) page))
                body page2 (exitValue [] exit2) lg2 of
           None \<Rightarrow> None
         | Some (exit3, page3, lg3) \<Rightarrow>
             Some (go_range (rangeSeed cfg user) (map fst (exitValue [] exit3)), lg3))))"

section \<open>Aggregation\<close>

text \<open>
  \<^verbatim>\<open>return float64(metrics.HoC) + float64(metrics.Pulls)*250 + float64(metrics.Issues)*50
       + float64(metrics.Commits)*5 + float64(metrics.Reviews)*150 + float64(metrics.Msgs)*5\<close>
\<close>

definition calculateScore :: "UserMetrics \<Rightarrow> real" where
  "calculateScore metrics =
     real_of_int
       (addFloat64 (addFloat64 (addFloat64 (addFloat64 (addFloat64
          (float64 (HoC metrics))
          (mulFloat64 (float64 (Pulls metrics)) 250))
          (mulFloat64 (float64 (Issues metrics)) 50))
          (mulFloat64 (float64 (Commits metrics)) 5))
          (mulFloat64 (float64 (Reviews metrics)) 150))
          (mulFloat64 (float64 (Msgs metrics)) 5))"

text \<open>
  \<open>updateUserMetrics\<close> adds the seven metric fields, allocates \<open>Repos\<close> when it is
  nil, adds every entry of the update's \<open>Repos\<close> (a nil map ranges over nothing) and
  recomputes \<open>Score\<close> from the new totals. The update's maps in this program hold at
  most one entry, so the order of that \<^verbatim>\<open>range\<close> is immaterial.
\<close>

definition updateUserMetrics :: "UserMetrics \<Rightarrow> UserMetrics \<Rightarrow> UserMetrics" where
  "updateUserMetrics metrics update =
     (let m1 = metrics
            \<lparr>Commits := Commits metrics + Commits update,
             HoC := HoC metrics + HoC update,
             Issues := Issues metrics + Issues update,
             LcP := LcP metrics + LcP update,
             Msgs := Msgs metrics + Msgs update,
             Pulls := Pulls metrics + Pulls update,
             Reviews := Reviews metrics + Reviews update\<rparr>;
          m2 = m1\<lparr>Repos := Some (fold map_add_at (mapEntries (Repos update))
                                   (mapEntries (Repos m1)))\<rparr>
      in m2\<lparr>Score := calculateScore m2\<rparr>)"

text \<open>The accumulator of one user after a sequence of contributions, from the zero value.\<close>

definition aggregate :: "UserMetrics list \<Rightarrow> UserMetrics" where
  "aggregate updates = foldl updateUserMetrics zeroUserMetrics updates"


text \<open>Sequencing of two computations: the second runs when the first returned a value.\<close>

definition bind_run :: "'a run \<Rightarrow> ('a \<Rightarrow> request list \<Rightarrow> 'b run) \<Rightarrow> 'b run" where
  "bind_run r f =
     (case r of
        None \<Rightarrow> None
      | Some (Inl e, lg) \<Rightarrow> Some (Inl e, lg)
      | Some (Inr v, lg) \<Rightarrow> f v lg)"

text \<open>
  The \<^verbatim>\<open>switch metric\<close> of \<open>calculateMetrics\<close>: the collectors called for one
  repository and the struct literal handed to \<open>updateUserMetrics\<close>. An unknown
  selector ends the process.
\<close>

definition collectRepo ::
  "Config \<Rightarrow> Client \<Rightarrow> string \<Rightarrow> string \<Rightarrow> string \<Rightarrow> string \<Rightarrow> string \<Rightarrow> request list
     \<Rightarrow> UserMetrics run" where
  "collectRepo cfg c metric repoFullName owner repoName user lg =
     (if metric = ''commits'' then
        bind_run (getCommits c owner repoName user lg) (\<lambda>commits lg1.
          Some (Inr (zeroUserMetrics\<lparr>Commits := commits\<rparr>), lg1))
      else if metric = ''hoc'' then
        bind_run (getHoC c owner repoName user lg) (\<lambda>hoc lg1.
          Some (Inr (zeroUserMetrics\<lparr>HoC := hoc, Repos := Some [(repoFullName, hoc)]\<rparr>), lg1))
      else if metric = ''issues'' then
        bind_run (getIssues c owner repoName user lg) (\<lambda>issues lg1.
          Some (Inr (zeroUserMetrics\<lparr>Issues := issues\<rparr>), lg1))
      else if metric = ''lcp'' then
        bind_run (getLcP c owner repoName user lg) (\<lambda>lcp lg1.
          Some (Inr (zeroUserMetrics\<lparr>LcP := lcp\<rparr>), lg1))
      else if metric = ''msgs'' then
        bind_run (getMsgs cfg c owner repoName user lg) (\<lambda>msgs lg1.
          Some (Inr (zeroUserMetrics\<lparr>Msgs := msgs\<rparr>), lg1))
      else if metric = ''pulls'' then
        bind_run (getPulls cfg c owner repoName user lg) (\<lambda>pulls lg1.
          Some (Inr (zeroUserMetrics\<lparr>Pulls := pulls\<rparr>), lg1))
      else if metric = ''reviews'' then
        bind_run (getReviews cfg c owner repoName user lg) (\<lambda>reviews lg1.
          Some (Inr (zeroUserMetrics\<lparr>Reviews := reviews\<rparr>), lg1))
      else if metric = ''all'' then
        bind_run (getCommits c owner repoName user lg) (\<lambda>commits lg1.
        bind_run (getHoC c owner repoName user lg1) (\<lambda>hoc lg2.
        bind_run (getIssues c owner repoName user lg2) (\<lambda>issues lg3.
        bind_run (getLcP c owner repoName user lg3) (\<lambda>lcp lg4.
        bind_run (getMsgs cfg c owner repoName user lg4) (\<lambda>msgs lg5.
        bind_run (getPulls cfg c owner repoName user lg5) (\<lambda>pulls lg6.
        bind_run (getReviews cfg c owner repoName user lg6) (\<lambda>reviews lg7.
          Some (Inr (zeroUserMetrics
                 \<lparr>Commits := commits, HoC := hoc, Issues := issues, LcP := lcp,
                  Msgs := msgs, Pulls := pulls, Reviews := reviews,
                  Repos := Some [(repoFullName, hoc)]\<rparr>), lg7))))))))
      else Some (Inl FatalUnknownMetric, lg))"

text \<open>\<^verbatim>\<open>metrics[user]\<close> on the map of accumulators.\<close>

definition metricsAt :: "(string \<rightharpoonup> UserMetrics) \<Rightarrow> string \<Rightarrow> UserMetrics" where
  "metricsAt metrics user = (case metrics user of None \<Rightarrow> zeroUserMetrics | Some m \<Rightarrow> m)"

text \<open>
  The inner loop of \<open>calculateMetrics\<close> over the repositories of one user. An
  identifier that \<open>parseRepo\<close> rejects is skipped.
\<close>

fun forRepos ::
  "Config \<Rightarrow> Client \<Rightarrow> string \<Rightarrow> string \<Rightarrow> string list \<Rightarrow> (string \<rightharpoonup> UserMetrics)
     \<Rightarrow> request list \<Rightarrow> (string \<rightharpoonup> UserMetrics) run" where
  "forRepos cfg c metric user [] metrics lg = Some (Inr metrics, lg)"
| "forRepos cfg c metric user (repoFullName # rest) metrics lg =
     (case parseRepo repoFullName of (owner, repoName) \<Rightarrow>
        if owner = [] \<or> repoName = [] then forRepos cfg c metric user rest metrics lg
        else
          (case collectRepo cfg c metric repoFullName owner repoName user lg of
             None \<Rightarrow> None
           | Some (Inl e, lg1) \<Rightarrow> Some (Inl e, lg1)
           | Some (Inr update, lg1) \<Rightarrow>
               forRepos cfg c metric user rest
                 (metrics(user \<mapsto> updateUserMetrics (metricsAt metrics user) update)) lg1))"

text \<open>
  The outer loop over the users: discovery, the repositories, then
  \<open>renderTemplate\<close>, whose failure is fatal.
\<close>

fun forUsers ::
  "Config \<Rightarrow> Client \<Rightarrow> string \<Rightarrow> string list \<Rightarrow> (string \<rightharpoonup> UserMetrics)
     \<Rightarrow> request list \<Rightarrow> (string \<rightharpoonup> UserMetrics) run" where
  "forUsers cfg c metric [] metrics lg = Some (Inr metrics, lg)"
| "forUsers cfg c metric (user # rest) metrics lg =
     (case getUserRepositories cfg c user lg of
        None \<Rightarrow> None
      | Some (repos, lg1) \<Rightarrow>
          (case forRepos cfg c metric user repos metrics lg1 of
             None \<Rightarrow> None
           | Some (Inl e, lg2) \<Rightarrow> Some (Inl e, lg2)
           | Some (Inr metrics', lg2) \<Rightarrow>
               if renderOK cfg then forUsers cfg c metric rest metrics' lg2
               else Some (Inl FatalRenderTemplate, lg2)))"

definition calculateMetrics ::
  "Config \<Rightarrow> Client \<Rightarrow> string list \<Rightarrow> string \<Rightarrow> (string \<rightharpoonup> UserMetrics) run" where
  "calculateMetrics cfg c users metric = forUsers cfg c metric users Map.empty []"

section \<open>Report\<close>

text \<open>
  \<open>getTopRepos\<close> ranges over the map into a slice, sorts it with
  \<^verbatim>\<open>repoList[i].HoC > repoList[j].HoC\<close>, formats the first three entries with
  \<^verbatim>\<open>"%s(%d)"\<close> and joins them with \<^verbatim>\<open>", "\<close>. \<open>topEntries\<close> is the part of the
  sorted slice that the last loop visits.
\<close>

definition topEntries :: "nat list \<Rightarrow> repo_map option \<Rightarrow> (string \<times> go_int) list" where
  "topEntries seed repos =
     (let repoList = go_range seed (mapEntries repos)
      in take 3 (sortSlice (\<lambda>a b. sint (snd a) > sint (snd b)) repoList))"

definition fmtRepo :: "string \<times> go_int \<Rightarrow> string" where
  "fmtRepo r = fst r @ ''('' @ fmt_d (snd r) @ '')''"

definition getTopRepos :: "nat list \<Rightarrow> repo_map option \<Rightarrow> string" where
  "getTopRepos seed repos = Join (map fmtRepo (topEntries seed repos)) '', ''"

section \<open>Models of the remote service\<close>

text \<open>
  A listing served from a fixed sequence of pages, whatever was called before: page
  \<open>i\<close> (counted from 1; an unset page reads the first) carries the \<open>i\<close>-th element
  and announces page \<open>i + 1\<close>, the last page announces none, and a page beyond the
  sequence is empty.
\<close>

definition pagedList :: "'a list list \<Rightarrow> nat \<Rightarrow> 'a list reply" where
  "pagedList pages page =
     (let i = (if page = 0 then 1 else page)
      in if i \<le> length pages
         then Success (pages ! (i - 1)) (if i < length pages then i + 1 else 0)
         else Success [] 0)"

text \<open>
  The end-to-end scenario: user alice, one repository org/repo with three non-merge
  commits by alice that add 40 and delete 10 lines over four files (the API reports
  \<open>changes = additions + deletions\<close> per file, 50 in total), one merged pull
  request by alice, no issues, reviews or comments.
\<close>

definition alicePR :: Issue where
  "alicePR =
     \<lparr>IsPullRequest = True, CreatedAt = Some 1000, ClosedAt = Some 8200, Comments = 0,
      RepositoryURL = ''https://api.github.com/repos/org/repo''\<rparr>"

definition aliceCommits :: "RepositoryCommit list" where
  "aliceCommits =
     [\<lparr>SHA = ''c1'', Author = Some ''alice'', Parents = [''p0'']\<rparr>,
      \<lparr>SHA = ''c2'', Author = Some ''alice'', Parents = [''c1'']\<rparr>,
      \<lparr>SHA = ''c3'', Author = Some ''alice'', Parents = [''c2'']\<rparr>]"

definition aliceDetails :: "string \<Rightarrow> CommitFile list option" where
  "aliceDetails sha =
     (if sha = ''c1'' then Some [\<lparr>Additions = 10, Deletions = 5, Changes = 15\<rparr>]
      else if sha = ''c2'' then
        Some [\<lparr>Additions = 20, Deletions = 0, Changes = 20\<rparr>,
              \<lparr>Additions = 0, Deletions = 5, Changes = 5\<rparr>]
      else if sha = ''c3'' then Some [\<lparr>Additions = 10, Deletions = 0, Changes = 10\<rparr>]
      else None)"

definition aliceConfig :: Config where
  "aliceConfig =
     \<lparr>verbose = False, organization = ''org'', since = ''2026-10-04'',
      sinceStamp = ''2026-10-04 03:31:00 +0000 UTC'', rangeSeed = (\<lambda>user. []),
      renderOK = True\<rparr>"

definition aliceClient :: Client where
  "aliceClient =
     \<lparr>ListCommits = (\<lambda>lg owner repo author page.
        if owner = ''org'' \<and> repo = ''repo'' \<and> author = ''alice''
        then pagedList [aliceCommits] page else Success [] 0),
      GetCommit = (\<lambda>lg owner repo sha. aliceDetails sha),
      ListByRepo = (\<lambda>lg owner repo creator state page.
        if owner = ''org'' \<and> repo = ''repo'' \<and> creator = ''alice'' \<and> state = ''closed''
        then pagedList [[alicePR]] page else Success [] 0),
      SearchIssues = (\<lambda>lg query page.
        if query = ''author:alice created:>2026-10-04 03:31:00 +0000 UTC''
           \<or> query = ''repo:org/repo is:pr author:alice merged:>2026-10-04''
        then pagedList [[alicePR]] page else Success [] 0)\<rparr>"

definition aliceTrace :: "request list" where
  "aliceTrace =
     [SearchIssuesReq ''author:alice created:>2026-10-04 03:31:00 +0000 UTC'' 0,
      SearchIssuesReq ''commenter:alice created:>2026-10-04'' 0,
      SearchIssuesReq ''reviewed-by:alice created:>2026-10-04'' 0,
      ListCommitsReq ''org'' ''repo'' ''alice'' 0,
      ListCommitsReq ''org'' ''repo'' ''alice'' 0,
      GetCommitReq ''org'' ''repo'' ''c1'',
      GetCommitReq ''org'' ''repo'' ''c2'',
      GetCommitReq ''org'' ''repo'' ''c3'',
      ListByRepoReq ''org'' ''repo'' ''alice'' [] 0,
      ListByRepoReq ''org'' ''repo'' ''alice'' ''closed'' 0,
      SearchIssuesReq ''repo:org/repo is:pr commenter:alice created:>2026-10-04'' 0,
      SearchIssuesReq ''repo:org/repo is:pr author:alice merged:>2026-10-04'' 0,
      SearchIssuesReq ''repo:org/repo reviewed-by:alice is:pr merged:>2026-10-04'' 0]"

text \<open>The totals of alice that the run with every metric selected computes.\<close>

definition aliceTotals :: UserMetrics where
  "aliceTotals =
     \<lparr>Commits = 3, HoC = 90, Issues = 0, LcP = 2, Msgs = 0, Pulls = 1, Reviews = 0,
      Score = 355, Repos = Some [(''org/repo'', 90)]\<rparr>"

text \<open>The accumulator of alice when the run with every metric selected returns.\<close>

definition aliceOutcome :: "UserMetrics option" where
  "aliceOutcome =
     (case calculateMetrics aliceConfig aliceClient [''alice''] ''all'' of
        None \<Rightarrow> None
      | Some (Inl e, lg) \<Rightarrow> None
      | Some (Inr metrics, lg) \<Rightarrow> metrics ''alice'')"

text \<open>
  The pages a listing of \<open>pagedList\<close> serves in effect: a listing with no page at all
  answers the first request with one empty page. The requests of a trace that ask
  for a page of a listing are all but the commit-detail requests.
\<close>

definition served :: "'a list list \<Rightarrow> 'a list list" where
  "served pages = (if pages = [] then [[]] else pages)"

fun isPageRequest :: "request \<Rightarrow> bool" where
  "isPageRequest (GetCommitReq owner repo sha) = False"
| "isPageRequest r = True"

text \<open>
  What one counted commit adds to the lines touched, given the answer to its detail
  request: nothing when the request failed.
\<close>

definition linesTouched :: "CommitFile list option \<Rightarrow> go_int" where
  "linesTouched details =
     (case details of
        None \<Rightarrow> 0
      | Some files \<Rightarrow> sum_list (map (\<lambda>file. Additions file + Changes file) files))"

text \<open>A remote that serves fixed pages: one listing of commits, one of issues for every query.\<close>

definition pagedClient ::
  "RepositoryCommit list list \<Rightarrow> (string \<Rightarrow> CommitFile list option) \<Rightarrow> Issue list list \<Rightarrow> Client" where
  "pagedClient commitPages details issuePages =
     \<lparr>ListCommits = (\<lambda>lg owner repo author page. pagedList commitPages page),
      GetCommit = (\<lambda>lg owner repo sha. details sha),
      ListByRepo = (\<lambda>lg owner repo creator state page. pagedList issuePages page),
      SearchIssues = (\<lambda>lg query page. pagedList issuePages page)\<rparr>"

text \<open>A detail endpoint that knows no commit.\<close>

definition noDetails :: "string \<Rightarrow> CommitFile list option" where
  "noDetails sha = None"

text \<open>
  Two pages of commits by alice with two merge commits among them (two and three
  parents), and two pages of issues: two pull requests and one plain issue.
\<close>

definition mergePages :: "RepositoryCommit list list" where
  "mergePages =
     [[\<lparr>SHA = ''c1'', Author = Some ''alice'', Parents = [''p0'']\<rparr>,
       \<lparr>SHA = ''m1'', Author = Some ''alice'', Parents = [''c1'', ''x1'']\<rparr>],
      [\<lparr>SHA = ''c2'', Author = Some ''alice'', Parents = [''m1'']\<rparr>,
       \<lparr>SHA = ''c3'', Author = Some ''alice'', Parents = [''c2'']\<rparr>,
       \<lparr>SHA = ''m2'', Author = Some ''alice'', Parents = [''c3'', ''x2'', ''x3'']\<rparr>]]"

definition issuePages :: "Issue list list" where
  "issuePages =
     [[alicePR],
      [alicePR\<lparr>Comments := 4\<rparr>, alicePR\<lparr>IsPullRequest := False, ClosedAt := None\<rparr>]]"

text \<open>
  Search results for the discovery: the authored query has one page (a pull request in
  org/a, one in elsewhere/x, a plain issue in org/z), the commented-on query two pages
  (org/a; org/b), the reviewed query two pages (org/c; org/a and org/d).
\<close>

definition prIn :: "string \<Rightarrow> Issue" where
  "prIn repo =
     \<lparr>IsPullRequest = True, CreatedAt = Some 1000, ClosedAt = Some 8200, Comments = 0,
      RepositoryURL = ''https://api.github.com/repos/'' @ repo\<rparr>"

definition discoveryAuthored :: "Issue list list" where
  "discoveryAuthored =
     [[prIn ''org/a'', prIn ''elsewhere/x'', (prIn ''org/z'')\<lparr>IsPullRequest := False\<rparr>]]"

definition discoveryCommented :: "Issue list list" where
  "discoveryCommented = [[prIn ''org/a''], [prIn ''org/b'']]"

definition discoveryReviewed :: "Issue list list" where
  "discoveryReviewed = [[prIn ''org/c''], [prIn ''org/a'', prIn ''org/d'']]"

definition discoveryClient :: Client where
  "discoveryClient =
     \<lparr>ListCommits = (\<lambda>lg owner repo author page. Success [] 0),
      GetCommit = (\<lambda>lg owner repo sha. None),
      ListByRepo = (\<lambda>lg owner repo creator state page. Success [] 0),
      SearchIssues = (\<lambda>lg query page.
        if query = ''author:alice created:>2026-10-04 03:31:00 +0000 UTC'' then
          pagedList discoveryAuthored page
        else if query = ''commenter:alice created:>2026-10-04'' then
          pagedList discoveryCommented page
        else if query = ''reviewed-by:alice created:>2026-10-04'' then
          pagedList discoveryReviewed page
        else Success [] 0)\<rparr>"

text \<open>The scenario of alice with the search for reviewed pull requests out of service.\<close>

definition reviewsDownClient :: Client where
  "reviewsDownClient =
     aliceClient\<lparr>SearchIssues := (\<lambda>lg query page.
        if query = ''repo:org/repo reviewed-by:alice is:pr merged:>2026-10-04''
        then Failure (Some 502) else SearchIssues aliceClient lg query page)\<rparr>"

section \<open>Invariants\<close>


text \<open>
  The size of a score: the weighted sum of the magnitudes of the six totals. While it
  is at most \<open>2 ^ 53\<close>, no operation of \<open>calculateScore\<close> rounds.
\<close>

definition scoreMagnitude :: "UserMetrics \<Rightarrow> int" where
  "scoreMagnitude m =
     \<bar>sint (HoC m)\<bar> + \<bar>sint (Pulls m)\<bar> * 250 + \<bar>sint (Issues m)\<bar> * 50
     + \<bar>sint (Commits m)\<bar> * 5 + \<bar>sint (Reviews m)\<bar> * 150 + \<bar>sint (Msgs m)\<bar> * 5"

text \<open>A repository identifier of the organization: its owner segment is the organization.\<close>

abbreviation inOrganization :: "string \<Rightarrow> string \<Rightarrow> bool" where
  "inOrganization org r \<equiv>
     (\<exists>name. r = org @ ''/'' @ name \<and> CHR ''/'' \<notin> set org \<and> CHR ''/'' \<notin> set name)"

section \<open>Properties of the aggregation step\<close>

lemmas float64_defs = float64_def mulFloat64_def addFloat64_def binary64_def

lemma binary64_exact:
  assumes "\<bar>x\<bar> \<le> 2 ^ 53"
  shows "binary64 x = x"
proof -
  consider "\<bar>x\<bar> < 2 ^ 53" | "x = 2 ^ 53" | "x = - (2 ^ 53)"
    using assms by fastforce
  then show ?thesis
  proof cases
    case 1
    then show ?thesis by (simp add: binary64_def)
  next
    case 2
    have "binary64 9007199254740992 = 9007199254740992"
      by (simp add: binary64_def roundEven_def bitLen.simps)
    with 2 show ?thesis by simp
  next
    case 3
    have "binary64 (- 9007199254740992) = - 9007199254740992"
      by (simp add: binary64_def roundEven_def bitLen.simps)
    with 3 show ?thesis by simp
  qed
qed

lemma calculateScore_exact:
  assumes "scoreMagnitude m \<le> 2 ^ 53"
  shows "calculateScore m =
           real_of_int (sint (HoC m)) * 1 + real_of_int (sint (Pulls m)) * 250
           + real_of_int (sint (Issues m)) * 50 + real_of_int (sint (Commits m)) * 5
           + real_of_int (sint (Reviews m)) * 150 + real_of_int (sint (Msgs m)) * 5"
proof -
  define h p i c r g where "h = sint (HoC m)" and "p = sint (Pulls m)" and "i = sint (Issues m)"
    and "c = sint (Commits m)" and "r = sint (Reviews m)" and "g = sint (Msgs m)"
  have bound: "\<bar>h\<bar> + \<bar>p\<bar> * 250 + \<bar>i\<bar> * 50 + \<bar>c\<bar> * 5 + \<bar>r\<bar> * 150 + \<bar>g\<bar> * 5 \<le> 2 ^ 53"
    using assms by (simp add: scoreMagnitude_def h_def p_def i_def c_def r_def g_def)
  have conv: "binary64 h = h" "binary64 p = p" "binary64 i = i" "binary64 c = c"
    "binary64 r = r" "binary64 g = g"
    using bound by (auto intro!: binary64_exact)
  have prod: "binary64 (p * 250) = p * 250" "binary64 (i * 50) = i * 50"
    "binary64 (c * 5) = c * 5" "binary64 (r * 150) = r * 150" "binary64 (g * 5) = g * 5"
    using bound by (auto intro!: binary64_exact simp: abs_mult)
  have s1: "binary64 (h + p * 250) = h + p * 250"
    using bound by (intro binary64_exact) (simp add: abs_mult abs_if split: if_splits)
  have s2: "binary64 (h + p * 250 + i * 50) = h + p * 250 + i * 50"
    using bound by (intro binary64_exact) (simp add: abs_mult abs_if split: if_splits)
  have s3: "binary64 (h + p * 250 + i * 50 + c * 5) = h + p * 250 + i * 50 + c * 5"
    using bound by (intro binary64_exact) (simp add: abs_mult abs_if split: if_splits)
  have s4: "binary64 (h + p * 250 + i * 50 + c * 5 + r * 150)
              = h + p * 250 + i * 50 + c * 5 + r * 150"
    using bound by (intro binary64_exact) (simp add: abs_mult abs_if split: if_splits)
  have s5: "binary64 (h + p * 250 + i * 50 + c * 5 + r * 150 + g * 5)
              = h + p * 250 + i * 50 + c * 5 + r * 150 + g * 5"
    using bound by (intro binary64_exact) (simp add: abs_mult abs_if split: if_splits)
  have "calculateScore m = real_of_int (h + p * 250 + i * 50 + c * 5 + r * 150 + g * 5)"
    unfolding calculateScore_def float64_def mulFloat64_def addFloat64_def
    by (simp only: h_def [symmetric] p_def [symmetric] i_def [symmetric] c_def [symmetric]
        r_def [symmetric] g_def [symmetric] conv prod s1 s2 s3 s4 s5)
  then show ?thesis
    by (simp add: h_def p_def i_def c_def r_def g_def)
qed

lemma updateUserMetrics_Score:
  "Score (updateUserMetrics m u) = calculateScore (updateUserMetrics m u)"
  by (simp add: updateUserMetrics_def Let_def calculateScore_def)

lemma aggregate_Score: "Score (aggregate us) = calculateScore (aggregate us)"
proof (cases us rule: rev_cases)
  case Nil
  then show ?thesis
    by (simp add: aggregate_def calculateScore_def zeroUserMetrics_def float64_defs)
next
  case (snoc vs v)
  then show ?thesis
    by (simp add: aggregate_def updateUserMetrics_Score)
qed









section \<open>Invariants of the loops of calculateMetrics\<close>



lemma forRepos_invariant:
  assumes "forRepos cfg c metric user repos metrics lg = Some (Inr metrics', lg')"
      and "\<And>u m. metrics u = Some m \<Longrightarrow> Q m"
      and "\<And>m update repoFullName owner repoName lg1 lg2.
             m = zeroUserMetrics \<or> Q m \<Longrightarrow>
             collectRepo cfg c metric repoFullName owner repoName user lg1 = Some (Inr update, lg2) \<Longrightarrow>
             Q (updateUserMetrics m update)"
      and "metrics' u = Some m"
  shows "Q m"
  using assms(1,2,4)
proof (induction repos arbitrary: metrics lg)
  case Nil
  then show ?case by simp
next
  case (Cons repoFullName rest)
  obtain owner repoName where pr: "parseRepo repoFullName = (owner, repoName)"
    by (cases "parseRepo repoFullName")
  show ?case
  proof (cases "owner = [] \<or> repoName = []")
    case True
    with Cons.prems(1) pr have "forRepos cfg c metric user rest metrics lg = Some (Inr metrics', lg')"
      by simp
    from Cons.IH [OF this Cons.prems(2) Cons.prems(3)] show ?thesis by simp
  next
    case False
    with Cons.prems(1) pr obtain update lg1 where
      col: "collectRepo cfg c metric repoFullName owner repoName user lg = Some (Inr update, lg1)" and
      rest: "forRepos cfg c metric user rest
               (metrics(user \<mapsto> updateUserMetrics (metricsAt metrics user) update)) lg1
             = Some (Inr metrics', lg')"
      by (auto split: option.splits sum.splits prod.splits)
    have at: "metricsAt metrics user = zeroUserMetrics \<or> Q (metricsAt metrics user)"
      using Cons.prems(2) by (auto simp: metricsAt_def split: option.splits)
    have "Q (updateUserMetrics (metricsAt metrics user) update)"
      using at col by (rule assms(3))
    then have "\<And>u m. (metrics(user \<mapsto> updateUserMetrics (metricsAt metrics user) update)) u = Some m
                 \<Longrightarrow> Q m"
      using Cons.prems(2) by (auto split: if_splits)
    from Cons.IH [OF rest this Cons.prems(3)] show ?thesis by simp
  qed
qed

lemma forUsers_invariant:
  assumes "forUsers cfg c metric users metrics lg = Some (Inr metrics', lg')"
      and "\<And>u m. metrics u = Some m \<Longrightarrow> Q m"
      and "\<And>m update repoFullName owner repoName user lg1 lg2.
             m = zeroUserMetrics \<or> Q m \<Longrightarrow>
             collectRepo cfg c metric repoFullName owner repoName user lg1 = Some (Inr update, lg2) \<Longrightarrow>
             Q (updateUserMetrics m update)"
      and "metrics' u = Some m"
  shows "Q m"
  using assms(1,2,4)
proof (induction users arbitrary: metrics lg)
  case Nil
  then show ?case by simp
next
  case (Cons user rest)
  from Cons.prems(1) obtain repos lg1 metrics1 lg2 where
    run1: "forRepos cfg c metric user repos metrics lg1 = Some (Inr metrics1, lg2)" and
    run2: "forUsers cfg c metric rest metrics1 lg2 = Some (Inr metrics', lg')"
    by (auto split: option.splits sum.splits prod.splits if_splits)
  have "Q m'" if "metrics1 u' = Some m'" for u' m'
  proof (rule forRepos_invariant [where Q = Q, OF run1 _ _ that])
    show "\<And>u m. metrics u = Some m \<Longrightarrow> Q m" by (rule Cons.prems(2))
    show "\<And>m update repoFullName owner repoName lg1 lg2.
            m = zeroUserMetrics \<or> Q m \<Longrightarrow>
            collectRepo cfg c metric repoFullName owner repoName user lg1 = Some (Inr update, lg2) \<Longrightarrow>
            Q (updateUserMetrics m update)"
      by (rule assms(3))
  qed
  from Cons.IH [OF run2 this Cons.prems(3)] show ?case by simp
qed

lemma calculateMetrics_invariant:
  assumes "calculateMetrics cfg c users metric = Some (Inr metrics, lg)"
      and "\<And>m update repoFullName owner repoName user lg1 lg2.
             m = zeroUserMetrics \<or> Q m \<Longrightarrow>
             collectRepo cfg c metric repoFullName owner repoName user lg1 = Some (Inr update, lg2) \<Longrightarrow>
             Q (updateUserMetrics m update)"
      and "metrics u = Some m"
  shows "Q m"
proof (rule forUsers_invariant [where Q = Q, OF assms(1) [unfolded calculateMetrics_def] _ _ assms(3)])
  show "\<And>u m. Map.empty u = Some m \<Longrightarrow> Q m" by simp
  show "\<And>m update repoFullName owner repoName user lg1 lg2.
          m = zeroUserMetrics \<or> Q m \<Longrightarrow>
          collectRepo cfg c metric repoFullName owner repoName user lg1 = Some (Inr update, lg2) \<Longrightarrow>
          Q (updateUserMetrics m update)"
    by (rule assms(2))
qed

section \<open>Properties of the runtime functions\<close>

lemma go_range_mset: "mset (go_range seed xs) = mset xs"
proof (induction seed xs rule: go_range.induct)
  case (1 xs)
  then show ?case by simp
next
  case (2 n ns)
  then show ?case by simp
next
  case (3 n ns x xs)
  define ys where "ys = x # xs"
  define i where "i = n mod length ys"
  have i: "i < length ys" by (simp add: i_def ys_def)
  have "mset ys = mset (take i ys @ ys ! i # drop (Suc i) ys)"
    using id_take_nth_drop [OF i] by simp
  then have split: "mset ys = add_mset (ys ! i) (mset (take i ys @ drop (Suc i) ys))"
    by simp
  have "mset (go_range ns (take i ys @ drop (Suc i) ys)) = mset (take i ys @ drop (Suc i) ys)"
    using "3.IH" [of i] by (simp add: i_def ys_def)
  then show ?case
    using split by (simp add: Let_def i_def ys_def)
qed

lemma go_range_set: "set (go_range seed xs) = set xs"
  using go_range_mset [of seed xs] by (metis set_mset_mset)

lemma go_range_distinct: "distinct (go_range seed xs) = distinct xs"
  using go_range_mset [of seed xs] by (metis distinct_count_atmost_1 set_mset_mset)

text \<open>Every order of the entries is the result of some seed.\<close>

lemma go_range_pick:
  assumes "i < length xs"
  shows "go_range (i # seed) xs = xs ! i # go_range seed (take i xs @ drop (Suc i) xs)"
proof (cases xs)
  case Nil
  with assms show ?thesis by simp
next
  case (Cons x xs')
  have "i mod length (x # xs') = i" using assms Cons by simp
  then show ?thesis unfolding Cons go_range.simps Let_def by simp
qed

lemma go_range_every_order:
  "mset ys = mset xs \<Longrightarrow> \<exists>seed. go_range seed xs = ys"
proof (induction ys arbitrary: xs)
  case Nil
  then have "xs = []" by simp
  then show ?case by (intro exI [of _ "[]"]) simp
next
  case (Cons y ys)
  then have "y \<in> set xs" by (metis list.set_intros(1) set_mset_mset)
  then obtain i where i: "i < length xs" "xs ! i = y" by (auto simp: in_set_conv_nth)
  have "mset xs = add_mset y (mset (take i xs @ drop (Suc i) xs))"
    using id_take_nth_drop [OF i(1)] i(2) by (metis mset.simps(2) mset_append union_mset_add_mset_right)
  with Cons.prems have "mset ys = mset (take i xs @ drop (Suc i) xs)" by simp
  from Cons.IH [OF this] obtain seed where "go_range seed (take i xs @ drop (Suc i) xs) = ys" ..
  then have "go_range (i # seed) xs = y # ys" using go_range_pick [OF i(1)] i(2) by simp
  then show ?case ..
qed

lemma count_list_distinct: "distinct xs \<Longrightarrow> x \<in> set xs \<Longrightarrow> count_list xs x = 1"
  by (induction xs) (auto simp: count_list_0_iff)

lemma insertBy_mset: "mset (insertBy lt x xs) = add_mset x (mset xs)"
  by (induction xs) auto

lemma sortSlice_mset: "mset (sortSlice lt xs) = mset xs"
  by (induction xs) (auto simp: sortSlice_def insertBy_mset)

lemma insertBy_set: "set (insertBy lt x xs) = insert x (set xs)"
  using insertBy_mset [of lt x xs] by (metis set_mset_mset set_mset_add_mset_insert)

lemma insertBy_sorted:
  fixes key :: "'a \<Rightarrow> int"
  assumes "sorted_wrt (\<lambda>a b. key b \<le> key a) xs"
  shows "sorted_wrt (\<lambda>a b. key b \<le> key a) (insertBy (\<lambda>a b. key a > key b) x xs)"
  using assms
proof (induction xs)
  case Nil
  then show ?case by simp
next
  case (Cons y ys)
  show ?case
  proof (cases "key y > key x")
    case True
    then show ?thesis using Cons by (auto simp: insertBy_set)
  next
    case False
    then show ?thesis using Cons by auto
  qed
qed

lemma sortSlice_sorted:
  fixes key :: "'a \<Rightarrow> int"
  shows "sorted_wrt (\<lambda>a b. key b \<le> key a) (sortSlice (\<lambda>a b. key a > key b) xs)"
proof (induction xs)
  case Nil
  then show ?case by (simp add: sortSlice_def)
next
  case (Cons x xs)
  then show ?case using insertBy_sorted [of key _ x] by (simp add: sortSlice_def)
qed

text \<open>A slice that is in order already is left as it is, whatever the ties.\<close>

lemma sortSlice_keeps_sorted:
  "sorted_wrt (\<lambda>a b. \<not> lt b a) xs \<Longrightarrow> sortSlice lt xs = xs"
proof (induction xs)
  case Nil
  then show ?case by (simp add: sortSlice_def)
next
  case (Cons x xs)
  then have IH: "sortSlice lt xs = xs" by simp
  have "insertBy lt x xs = x # xs"
    using Cons.prems by (cases xs) auto
  then show ?case using IH by (simp add: sortSlice_def)
qed

lemma Split_not_Nil: "Split s sep \<noteq> []"
  by (induction s) (auto split: list.splits)

lemma Split_no_sep: "p \<in> set (Split s sep) \<Longrightarrow> sep \<notin> set p"
proof (induction s arbitrary: p)
  case Nil
  then show ?case by simp
next
  case (Cons c cs)
  show ?case
  proof (cases "c = sep")
    case True
    with Cons show ?thesis by auto
  next
    case False
    obtain q qs where q: "Split cs sep = q # qs"
      using Split_not_Nil [of cs sep] by (cases "Split cs sep") auto
    with Cons.prems False have "p = c # q \<or> p \<in> set qs" by auto
    then show ?thesis using Cons.IH q False by auto
  qed
qed

lemma Split_plain: "sep \<notin> set s \<Longrightarrow> Split s sep = [s]"
  by (induction s) auto

lemma Split_at_first: "sep \<notin> set a \<Longrightarrow> Split (a @ sep # b) sep = a # Split b sep"
  by (induction a) auto

lemma parseRepoURL_shape:
  "parseRepoURL url = [] \<or>
   (\<exists>a b. parseRepoURL url = a @ ''/'' @ b \<and> CHR ''/'' \<notin> set a \<and> CHR ''/'' \<notin> set b)"
proof (cases "length (Split url CHR ''/'') < 2")
  case True
  then show ?thesis by (simp add: parseRepoURL_def)
next
  case False
  define parts where "parts = Split url CHR ''/''"
  have "parts ! (length parts - 2) \<in> set parts" "parts ! (length parts - 1) \<in> set parts"
    using False by (auto simp: parts_def)
  then have "CHR ''/'' \<notin> set (parts ! (length parts - 2))"
            "CHR ''/'' \<notin> set (parts ! (length parts - 1))"
    by (auto simp: parts_def dest: Split_no_sep)
  then show ?thesis using False by (auto simp: parseRepoURL_def parts_def Let_def)
qed

lemma first_sep_unique:
  "c \<notin> set xs \<Longrightarrow> c \<notin> set xs' \<Longrightarrow> xs @ c # ys = xs' @ c # ys' \<Longrightarrow> xs = xs' \<and> ys = ys'"
proof (induction xs arbitrary: xs')
  case Nil
  then show ?case by (cases xs') auto
next
  case (Cons x xs)
  then show ?case by (cases xs') auto
qed

lemma HasPrefix_owner:
  assumes "HasPrefix (a @ ''/'' @ b) (org @ ''/'')"
      and "CHR ''/'' \<notin> set a" and "CHR ''/'' \<notin> set b"
  shows "org = a"
proof -
  from assms(1) obtain rest where eq: "a @ CHR ''/'' # b = org @ CHR ''/'' # rest"
    by (auto simp: HasPrefix_def prefix_def)
  show ?thesis
  proof (cases "CHR ''/'' \<in> set org")
    case True
    then obtain o1 o2 where org: "org = o1 @ CHR ''/'' # o2" and o1: "CHR ''/'' \<notin> set o1"
      by (meson split_list_first)
    from eq org have "a @ CHR ''/'' # b = o1 @ CHR ''/'' # (o2 @ CHR ''/'' # rest)" by simp
    from first_sep_unique [OF assms(2) o1 this] have "b = o2 @ CHR ''/'' # rest" by simp
    with assms(3) show ?thesis by simp
  next
    case False
    from first_sep_unique [OF assms(2) False eq] show ?thesis by simp
  qed
qed

section \<open>Properties of retry and pagination\<close>

lemma paginate_exit:
  assumes "paginate fetch body page acc lg = Some y"
      and "I acc"
      and "\<And>result a l a' l'. I a \<Longrightarrow> body result a l = (Inr a', l') \<Longrightarrow> I a'"
  shows "(\<exists>a. (fst y = Finished a \<or> fst y = FetchFailed a) \<and> I a)
         \<or> (\<exists>e result a l l'. fst y = Aborted e \<and> body result a l = (Inl e, l'))"
  using assms(2-)
proof (induction fetch body page acc lg y rule: paginate.raw_induct)
  case (1 loop fetch body page acc lg y)
  show ?case
  proof (cases "fetch page lg")
    case (Pair rep lg1)
    show ?thesis
    proof (cases rep)
      case (Failure status)
      with Pair "1.hyps" "1.prems" show ?thesis by auto
    next
      case (Success result nextPage)
      show ?thesis
      proof (cases "body result acc lg1")
        case bd: (Pair r lg2)
        show ?thesis
        proof (cases r)
          case (Inl e)
          with bd Pair Success "1.hyps" have "fst y = Aborted e" by auto
          with bd Inl show ?thesis by blast
        next
          case (Inr acc')
          have acc': "I acc'" using "1.prems"(2) [OF "1.prems"(1)] bd Inr by simp
          show ?thesis
          proof (cases "nextPage = 0")
            case True
            with bd Pair Success Inr "1.hyps" acc' show ?thesis by auto
          next
            case False
            with bd Pair Success Inr "1.hyps"
            have "loop fetch body nextPage acc' lg2 = Some y" by simp
            from "1.IH" [OF this acc' "1.prems"(2)] show ?thesis .
          qed
        qed
      qed
    qed
  qed
qed fact

lemma retry_first_success:
  "fn lg = (Success result nextPage, lg') \<Longrightarrow>
     retryWithBackoff (Suc n) fn lg = (Success result nextPage, lg')"
  by simp

lemma retry_all_fail:
  assumes "\<And>l. \<exists>status. fn l = (Failure status, l @ [req])"
  shows "retryWithBackoff n fn lg = (Failure None, lg @ replicate n req)"
proof (induction n arbitrary: lg)
  case 0
  then show ?case by simp
next
  case (Suc n)
  obtain status where "fn lg = (Failure status, lg @ [req])" using assms by blast
  then show ?case using Suc [of "lg @ [req]"] by (simp add: replicate_app_Cons_same)
qed


lemma pagedList_at:
  assumes "k < length pages" and "(if page = 0 then 1 else page) = Suc k"
  shows "pagedList pages page =
           Success (pages ! k) (if Suc k < length pages then Suc (Suc k) else 0)"
  using assms by (auto simp: pagedList_def Let_def)

lemma pagedList_Nil: "pagedList [] page = Success [] 0"
  by (simp add: pagedList_def Let_def)

lemma retry_paged:
  assumes "\<And>l. call l = (pagedList pages page, l @ [req])"
  shows "retryWithBackoff 5 call lg = (pagedList pages page, lg @ [req])"
proof -
  obtain result nextPage where "pagedList pages page = Success result nextPage"
    by (cases "pagedList pages page") (auto simp: pagedList_def Let_def split: if_splits)
  then show ?thesis using assms [of lg] by (simp add: eval_nat_numeral)
qed

lemma paginate_paged:
  assumes fetch: "\<And>page l. fetch page l = (pagedList pages page, l @ [req page])"
      and body: "\<And>result a l. result \<in> set pages \<Longrightarrow>
                   body result a l = (Inr (f result a), l @ g result)"
      and req: "\<And>page. isPageRequest (req page)"
      and g: "\<And>result q. q \<in> set (g result) \<Longrightarrow> \<not> isPageRequest q"
  shows "k < length pages \<Longrightarrow> (if page = 0 then 1 else page) = Suc k \<Longrightarrow>
         \<exists>page' tr.
           paginate fetch body page acc lg = Some (Finished (fold f (drop k pages) acc), page', lg @ tr)
           \<and> length (filter isPageRequest tr) = length pages - k
           \<and> filter (\<lambda>q. \<not> isPageRequest q) tr = concat (map g (drop k pages))"
proof (induction "length pages - Suc k" arbitrary: k page acc lg)
  case 0
  then have last: "Suc k = length pages" by simp
  have dr: "drop k pages = [pages ! k]"
    using last by (metis Cons_nth_drop_Suc drop_all lessI order_refl)
  have pl: "pagedList pages page = Success (pages ! k) 0"
    using pagedList_at [OF "0.prems"] last by simp
  have mem: "pages ! k \<in> set pages" using "0.prems"(1) by simp
  have "paginate fetch body page acc lg
          = Some (Finished (f (pages ! k) acc), page, lg @ (req page # g (pages ! k)))"
    by (subst paginate.simps) (simp add: fetch body [OF mem] pl)
  moreover have "filter isPageRequest (req page # g (pages ! k)) = [req page]"
    using req g by (auto simp: filter_empty_conv)
  moreover have "filter (\<lambda>q. \<not> isPageRequest q) (req page # g (pages ! k)) = g (pages ! k)"
    using req g by (auto simp: filter_id_conv)
  ultimately show ?case using dr last by (intro exI [of _ page] exI [of _ "req page # g (pages ! k)"]) simp
next
  case (Suc n)
  then have more: "Suc k < length pages" by simp
  have dr: "drop k pages = pages ! k # drop (Suc k) pages"
    using Suc.prems(1) by (simp add: Cons_nth_drop_Suc)
  have pl: "pagedList pages page = Success (pages ! k) (Suc (Suc k))"
    using pagedList_at [OF Suc.prems] more by simp
  have n: "n = length pages - Suc (Suc k)" using Suc.hyps(2) by simp
  obtain page' tr where
    run: "paginate fetch body (Suc (Suc k)) (f (pages ! k) acc) (lg @ req page # g (pages ! k))
            = Some (Finished (fold f (drop (Suc k) pages) (f (pages ! k) acc)), page',
                    (lg @ req page # g (pages ! k)) @ tr)" and
    cnt: "length (filter isPageRequest tr) = length pages - Suc k" and
    oth: "filter (\<lambda>q. \<not> isPageRequest q) tr = concat (map g (drop (Suc k) pages))"
    using Suc.hyps(1) [OF n more, of "Suc (Suc k)" "f (pages ! k) acc" "lg @ req page # g (pages ! k)"]
    by auto
  have mem: "pages ! k \<in> set pages" using Suc.prems(1) by simp
  have "paginate fetch body page acc lg
          = Some (Finished (fold f (drop k pages) acc), page', lg @ (req page # g (pages ! k) @ tr))"
    by (subst paginate.simps) (simp add: fetch body [OF mem] pl run dr)
  moreover have "length (filter isPageRequest (req page # g (pages ! k) @ tr)) = length pages - k"
    using req g cnt more by (auto simp: filter_empty_conv)
  moreover have "filter (\<lambda>q. \<not> isPageRequest q) (req page # g (pages ! k) @ tr)
                   = concat (map g (drop k pages))"
    using req g oth dr by (auto simp: filter_id_conv)
  ultimately show ?case by blast
qed


lemma pagedList_served: "pagedList (served pages) page = pagedList pages page"
  by (auto simp: served_def pagedList_def Let_def)

lemma served_props:
  "length (served pages) = max 1 (length pages)" "concat (served pages) = concat pages"
  "served pages \<noteq> []"
  by (cases pages; simp add: served_def)+

lemma paginate_paged_start:
  assumes fetch: "\<And>page l. fetch page l = (pagedList pages page, l @ [req page])"
      and body: "\<And>result a l. result \<in> set (served pages) \<Longrightarrow>
                   body result a l = (Inr (f result a), l @ g result)"
      and req: "\<And>page. isPageRequest (req page)"
      and g: "\<And>result q. q \<in> set (g result) \<Longrightarrow> \<not> isPageRequest q"
  shows "\<exists>page' tr.
           paginate fetch body 0 acc lg = Some (Finished (fold f (served pages) acc), page', lg @ tr)
           \<and> length (filter isPageRequest tr) = max 1 (length pages)
           \<and> filter (\<lambda>q. \<not> isPageRequest q) tr = concat (map g (served pages))"
proof -
  have fetch': "\<And>page l. fetch page l = (pagedList (served pages) page, l @ [req page])"
    by (simp add: fetch pagedList_served)
  have "0 < length (served pages)" using served_props(3) [of pages] by simp
  from paginate_paged
    [where pages = "served pages" and f = f and g = g and k = 0 and page = 0 and acc = acc
       and lg = lg, OF fetch' body req g this]
  show ?thesis by (simp add: served_props)
qed

lemma concat_map_Nil: "concat (map (\<lambda>r. []) xs) = []"
  by (induction xs) auto

lemma fold_fold_concat: "fold (fold f) xss a = fold f (concat xss) a"
  by (induction xss arbitrary: a) auto

lemma paginate_paged_pure:
  assumes fetch: "\<And>page l. fetch page l = (pagedList pages page, l @ [req page])"
      and req: "\<And>page. isPageRequest (req page)"
  shows "\<exists>page' tr.
           paginate fetch (pureBody (fold step)) 0 acc lg
             = Some (Finished (fold step (concat pages) acc), page', lg @ tr)
           \<and> length (filter isPageRequest tr) = max 1 (length pages)
           \<and> filter (\<lambda>q. \<not> isPageRequest q) tr = []"
proof -
  have body: "\<And>result a l. result \<in> set (served pages) \<Longrightarrow>
        pureBody (fold step) result a l = (Inr (fold step result a), l @ (\<lambda>r. []) result)"
    by (simp add: pureBody_def)
  from paginate_paged_start
    [where f = "fold step" and g = "\<lambda>r. []" and acc = acc and lg = lg, OF fetch body req]
  show ?thesis by (simp add: fold_fold_concat served_props concat_map_Nil)
qed

lemma fold_count:
  "fold (\<lambda>x n. if P x then n + 1 else n) xs (a :: go_int) = a + of_nat (length (filter P xs))"
  by (induction xs arbitrary: a) (auto simp: algebra_simps)

lemma fetch_ListCommits:
  assumes "\<And>l p. ListCommits c l owner repo user p = pagedList pages p"
  shows "retryWithBackoff 5 (callListCommits c owner repo user page) l
           = (pagedList pages page, l @ [ListCommitsReq owner repo user page])"
  by (rule retry_paged) (simp add: callListCommits_def assms)

lemma fetch_ListByRepo:
  assumes "\<And>l p. ListByRepo c l owner repo user state p = pagedList pages p"
  shows "retryWithBackoff 5 (callListByRepo c owner repo user state page) l
           = (pagedList pages page, l @ [ListByRepoReq owner repo user state page])"
  by (rule retry_paged) (simp add: callListByRepo_def assms)

lemma fetch_SearchIssues:
  assumes "\<And>l p. SearchIssues c l query p = pagedList pages p"
  shows "retryWithBackoff 5 (callSearchIssues c query page) l
           = (pagedList pages page, l @ [SearchIssuesReq query page])"
  by (rule retry_paged) (simp add: callSearchIssues_def assms)

lemma getCommits_paged:
  assumes "\<And>l p. ListCommits c l owner repo user p = pagedList pages p"
  shows "\<exists>tr. getCommits c owner repo user lg
                 = Some (Inr (of_nat (length (filter (countedCommit user) (concat pages)))), lg @ tr)
              \<and> length (filter isPageRequest tr) = max 1 (length pages)
              \<and> filter (\<lambda>q. \<not> isPageRequest q) tr = []"
proof -
  from paginate_paged_pure
    [where fetch = "\<lambda>page. retryWithBackoff 5 (callListCommits c owner repo user page)"
       and req = "ListCommitsReq owner repo user" and pages = pages
       and step = "\<lambda>commit commits. if countedCommit user commit then commits + 1 else commits"
       and acc = "0 :: go_int" and lg = lg,
     OF fetch_ListCommits [OF assms]]
  show ?thesis by (auto simp: getCommits_def leave_def fold_count)
qed


section \<open>The collectors on a paged listing\<close>

lemma fold_add_sum:
  "fold (\<lambda>x h. h + w x) xs (a :: go_int) = a + sum_list (map w xs)"
  by (induction xs arbitrary: a) (auto simp: algebra_simps)

lemma fold_hocCommit:
  assumes "\<And>l sha. GetCommit c l owner repo sha = details sha"
  shows "fold (hocCommit c owner repo user) commits (hoc, lg)
           = (hoc + sum_list (map (\<lambda>commit. linesTouched (details (SHA commit)))
                                 (filter (countedCommit user) commits)),
              lg @ map (\<lambda>commit. GetCommitReq owner repo (SHA commit))
                       (filter (countedCommit user) commits))"
proof (induction commits arbitrary: hoc lg)
  case Nil
  then show ?case by simp
next
  case (Cons commit commits)
  show ?case
  proof (cases "countedCommit user commit")
    case False
    then show ?thesis using Cons [of hoc lg] by (simp add: hocCommit_def)
  next
    case True
    show ?thesis
    proof (cases "details (SHA commit)")
      case None
      then show ?thesis
        using True Cons [of hoc "lg @ [GetCommitReq owner repo (SHA commit)]"]
        by (simp add: hocCommit_def callGetCommit_def assms linesTouched_def)
    next
      case (Some files)
      then show ?thesis
        using True
          Cons [of "hoc + sum_list (map (\<lambda>file. Additions file + Changes file) files)"
                   "lg @ [GetCommitReq owner repo (SHA commit)]"]
        by (simp add: hocCommit_def callGetCommit_def assms linesTouched_def fold_add_sum
            algebra_simps)
    qed
  qed
qed

lemma sum_list_concat_pages:
  "sum_list (map (\<lambda>cl. sum_list (map w (filter P cl))) pages)
     = (sum_list (map w (filter P (concat pages))) :: go_int)"
  by (induction pages) auto

lemma getHoC_paged:
  assumes "\<And>l p. ListCommits c l owner repo user p = pagedList pages p"
      and "\<And>l sha. GetCommit c l owner repo sha = details sha"
  shows "\<exists>tr. getHoC c owner repo user lg
                 = Some (Inr (sum_list (map (\<lambda>commit. linesTouched (details (SHA commit)))
                                (filter (countedCommit user) (concat pages)))), lg @ tr)
              \<and> length (filter isPageRequest tr) = max 1 (length pages)
              \<and> filter (\<lambda>q. \<not> isPageRequest q) tr
                  = map (\<lambda>commit. GetCommitReq owner repo (SHA commit))
                        (filter (countedCommit user) (concat pages))"
proof -
  define w :: "RepositoryCommit \<Rightarrow> go_int"
    where "w = (\<lambda>commit. linesTouched (details (SHA commit)))"
  define f where "f = (\<lambda>cl (hoc :: go_int). hoc + sum_list (map w (filter (countedCommit user) cl)))"
  define g where "g = (\<lambda>cl. map (\<lambda>commit. GetCommitReq owner repo (SHA commit))
                               (filter (countedCommit user) cl))"
  define body where "body = (\<lambda>commitList hoc lg1.
             case fold (hocCommit c owner repo user) commitList (hoc, lg1) of
               (hoc', lg2) \<Rightarrow> (Inr hoc' :: abort + go_int, lg2))"
  have b: "\<And>result a l. result \<in> set (served pages) \<Longrightarrow>
             body result a l = (Inr (f result a), l @ g result)"
    by (simp add: body_def f_def g_def w_def fold_hocCommit [OF assms(2)])
  have gq: "\<And>result q. q \<in> set (g result) \<Longrightarrow> \<not> isPageRequest q"
    by (auto simp: g_def)
  have rq: "\<And>page. isPageRequest (ListCommitsReq owner repo user page)"
    by simp
  have fv: "fold f xs a = a + sum_list (map w (filter (countedCommit user) (concat xs)))" for xs a
    by (induction xs arbitrary: a) (auto simp: f_def algebra_simps)
  have gv: "concat (map g xs) = g (concat xs)" for xs
    by (induction xs) (auto simp: g_def)
  have "\<exists>page' tr.
       paginate (\<lambda>page. retryWithBackoff 5 (callListCommits c owner repo user page)) body 0 0 lg
         = Some (Finished (fold f (served pages) 0), page', lg @ tr)
       \<and> length (filter isPageRequest tr) = max 1 (length pages)
       \<and> filter (\<lambda>q. \<not> isPageRequest q) tr = concat (map g (served pages))"
  proof (rule paginate_paged_start [where req = "ListCommitsReq owner repo user"])
    show "\<And>page l. retryWithBackoff 5 (callListCommits c owner repo user page) l
            = (pagedList pages page, l @ [ListCommitsReq owner repo user page])"
      by (rule fetch_ListCommits [OF assms(1)])
    show "\<And>result a l. result \<in> set (served pages) \<Longrightarrow>
            body result a l = (Inr (f result a), l @ g result)"
      by (rule b)
    show "\<And>page. isPageRequest (ListCommitsReq owner repo user page)" by (rule rq)
    show "\<And>result q. q \<in> set (g result) \<Longrightarrow> \<not> isPageRequest q" by (rule gq)
  qed
  moreover have "concat (map g (served pages))
                   = map (\<lambda>commit. GetCommitReq owner repo (SHA commit))
                         (filter (countedCommit user) (concat pages))"
    unfolding gv served_props by (simp add: g_def)
  ultimately show ?thesis
    by (auto simp: getHoC_def leave_def body_def [symmetric] fv served_props w_def)
qed

lemma getIssues_paged:
  assumes "\<And>l p. ListByRepo c l owner repo user [] p = pagedList pages p"
  shows "\<exists>tr. getIssues c owner repo user lg
                 = Some (Inr (of_nat (length (filter (\<lambda>issue. \<not> IsPullRequest issue)
                                                 (concat pages)))), lg @ tr)
              \<and> length (filter isPageRequest tr) = max 1 (length pages)"
proof -
  from paginate_paged_pure
    [where fetch = "\<lambda>page. retryWithBackoff 5 (callListByRepo c owner repo user [] page)"
       and req = "ListByRepoReq owner repo user []" and pages = pages
       and step = "\<lambda>issue issues. if \<not> IsPullRequest issue then issues + 1 else issues"
       and acc = "0 :: go_int" and lg = lg,
     OF fetch_ListByRepo [OF assms]]
  show ?thesis by (auto simp: getIssues_def leave_def fold_count)
qed

lemma getLcP_paged:
  assumes "\<And>l p. ListByRepo c l owner repo user ''closed'' p = pagedList pages p"
  shows "\<exists>tr. getLcP c owner repo user lg
                 = Some (Inr (lcpResult (fold lcpIssue (concat pages) (0, 0))), lg @ tr)
              \<and> length (filter isPageRequest tr) = max 1 (length pages)"
proof -
  from paginate_paged_pure
    [where fetch = "\<lambda>page. retryWithBackoff 5 (callListByRepo c owner repo user ''closed'' page)"
       and req = "ListByRepoReq owner repo user ''closed''" and pages = pages
       and step = lcpIssue and acc = "(0, 0)" and lg = lg,
     OF fetch_ListByRepo [OF assms]]
  show ?thesis by (auto simp: getLcP_def leave_def)
qed

lemma getMsgs_paged:
  assumes "\<And>l p. SearchIssues c l (msgsQuery cfg owner repo user) p = pagedList pages p"
  shows "\<exists>tr. getMsgs cfg c owner repo user lg
                 = Some (Inr (sum_list (map Comments (concat pages))), lg @ tr)
              \<and> length (filter isPageRequest tr) = max 1 (length pages)"
proof -
  from paginate_paged_pure
    [where fetch = "\<lambda>page. retryWithBackoff 5
                      (callSearchIssues c (msgsQuery cfg owner repo user) page)"
       and req = "SearchIssuesReq (msgsQuery cfg owner repo user)" and pages = pages
       and step = "\<lambda>pr msgs. msgs + Comments pr"
       and acc = "0 :: go_int" and lg = lg,
     OF fetch_SearchIssues [OF assms]]
  show ?thesis by (auto simp: getMsgs_def leave_def fold_add_sum)
qed

lemma getPulls_paged:
  assumes "\<And>l p. SearchIssues c l (pullsQuery cfg owner repo user) p = pagedList pages p"
  shows "\<exists>tr. getPulls cfg c owner repo user lg
                 = Some (Inr (of_nat (length (filter
                           (\<lambda>issue. IsPullRequest issue \<and> ClosedAt issue \<noteq> None)
                           (concat pages)))), lg @ tr)
              \<and> length (filter isPageRequest tr) = max 1 (length pages)"
proof -
  from paginate_paged_pure
    [where fetch = "\<lambda>page. retryWithBackoff 5
                      (callSearchIssues c (pullsQuery cfg owner repo user) page)"
       and req = "SearchIssuesReq (pullsQuery cfg owner repo user)" and pages = pages
       and step = "\<lambda>issue pulls.
             if IsPullRequest issue \<and> ClosedAt issue \<noteq> None then pulls + 1 else pulls"
       and acc = "0 :: go_int" and lg = lg,
     OF fetch_SearchIssues [OF assms]]
  show ?thesis by (auto simp: getPulls_def leave_def fold_count)
qed

lemma reviewsPage_ok:
  "verbose cfg \<longrightarrow> (\<forall>issue \<in> set issues. ClosedAt issue \<noteq> None) \<Longrightarrow>
     reviewsPage cfg issues n = Inr (n + of_nat (length issues))"
  by (induction issues arbitrary: n) (auto simp: algebra_simps Let_def)

lemma getReviews_paged:
  assumes "\<And>l p. SearchIssues c l (reviewsQuery cfg owner repo user) p = pagedList pages p"
      and "verbose cfg \<longrightarrow> (\<forall>issue \<in> set (concat pages). ClosedAt issue \<noteq> None)"
  shows "\<exists>tr. getReviews cfg c owner repo user lg
                 = Some (Inr (of_nat (length (concat pages))), lg @ tr)
              \<and> length (filter isPageRequest tr) = max 1 (length pages)"
proof -
  define f where "f = (\<lambda>(issues :: Issue list) (n :: go_int). n + of_nat (length issues))"
  define body where
    "body = (\<lambda>issues reviewsCount (lg1 :: request list). (reviewsPage cfg issues reviewsCount, lg1))"
  have b: "body result a l = (Inr (f result a), l @ (\<lambda>r. []) result)"
    if "result \<in> set (served pages)" for result a l
  proof -
    from that have "result = [] \<or> result \<in> set pages"
      by (auto simp: served_def split: if_splits)
    then have "verbose cfg \<longrightarrow> (\<forall>issue \<in> set result. ClosedAt issue \<noteq> None)"
      using assms(2) by auto
    then show ?thesis
      by (simp add: reviewsPage_ok f_def body_def)
  qed
  have fv: "fold f xs a = a + of_nat (length (concat xs))" for xs a
    by (induction xs arbitrary: a) (auto simp: f_def algebra_simps)
  from paginate_paged_start
    [where fetch = "\<lambda>page. retryWithBackoff 5
                      (callSearchIssues c (reviewsQuery cfg owner repo user) page)"
       and req = "SearchIssuesReq (reviewsQuery cfg owner repo user)" and pages = pages
       and body = body and f = f and g = "\<lambda>r. []" and acc = 0 and lg = lg,
     OF fetch_SearchIssues [OF assms(1)] b]
  show ?thesis
    by (auto simp: getReviews_def leave_def fv served_props body_def [symmetric])
qed

section \<open>Properties of the discovery\<close>

lemma discoverIssue_distinct:
  "distinct (map fst m) \<Longrightarrow> distinct (map fst (discoverIssue cfg issue m))"
  by (simp add: discoverIssue_def Let_def distinct_update)

lemma fold_invariant:
  "I a \<Longrightarrow> (\<And>x b. I b \<Longrightarrow> I (f x b)) \<Longrightarrow> I (fold f xs a)"
  by (induction xs arbitrary: a) auto

lemma discovery_loop_exit:
  assumes "paginate fetch (pureBody (fold (discoverIssue cfg))) page m lg = Some (ex, page', lg')"
      and "I m"
      and "\<And>issue m. I m \<Longrightarrow> I (discoverIssue cfg issue m)"
  shows "I (exitValue d ex)"
proof -
  have step: "I a'" if "I a" and "pureBody (fold (discoverIssue cfg)) result a l = (Inr a', l')"
    for result a l a' l'
  proof -
    from that(2) have "a' = fold (discoverIssue cfg) result a" by (simp add: pureBody_def)
    then show ?thesis using fold_invariant [of I a "discoverIssue cfg" result] that(1) assms(3)
      by simp
  qed
  have "(\<exists>a. (fst (ex, page', lg') = Finished a \<or> fst (ex, page', lg') = FetchFailed a) \<and> I a)
        \<or> (\<exists>e result a l l'. fst (ex, page', lg') = Aborted e
              \<and> pureBody (fold (discoverIssue cfg)) result a l = (Inl e, l'))"
  proof (rule paginate_exit [where I = I, OF assms(1) assms(2)])
    fix result a l a' l'
    assume "I a" and "pureBody (fold (discoverIssue cfg)) result a l = (Inr a', l')"
    then show "I a'" by (rule step)
  qed
  then show ?thesis by (auto simp: pureBody_def)
qed

lemma discoverIssue_keys:
  "fst ` set (discoverIssue cfg issue m) =
     (if discovers cfg issue then insert (parseRepoURL (RepositoryURL issue)) (fst ` set m)
      else fst ` set m)"
  by (auto simp: discoverIssue_def discovers_def Let_def dom_update)

lemma fold_discoverIssue_keys:
  "fst ` set (fold (discoverIssue cfg) issues m) =
     fst ` set m \<union> (\<lambda>issue. parseRepoURL (RepositoryURL issue)) ` {issue \<in> set issues. discovers cfg issue}"
  by (induction issues arbitrary: m) (auto simp: discoverIssue_keys)

lemma discovery_loop_paged:
  assumes "\<And>l p. SearchIssues c l query p = pagedList pages p"
      and "paginate (\<lambda>page. retryWithBackoff 5 (callSearchIssues c query page))
             (pureBody (fold (discoverIssue cfg))) 0 m lg = Some (ex, page', lg')"
  shows "exitValue d ex = fold (discoverIssue cfg) (concat pages) m"
proof -
  have rq: "\<And>page. isPageRequest (SearchIssuesReq query page)" by simp
  from paginate_paged_pure
    [where fetch = "\<lambda>page. retryWithBackoff 5 (callSearchIssues c query page)"
       and req = "SearchIssuesReq query" and pages = pages and step = "discoverIssue cfg"
       and acc = m and lg = lg, OF fetch_SearchIssues [OF assms(1)] rq]
  show ?thesis using assms(2) by auto
qed

lemma getUserRepositories_loops:
  assumes "getUserRepositories cfg c user lg = Some (repos, lg')"
  obtains exit1 page1 lg1 exit2 page2 lg2 exit3 page3 where
    "paginate (\<lambda>page. retryWithBackoff 5 (callSearchIssues c (authoredQuery cfg user) page))
       (pureBody (fold (discoverIssue cfg))) 0 [] lg = Some (exit1, page1, lg1)"
    "paginate (\<lambda>page. retryWithBackoff 5 (callSearchIssues c (commentedQuery cfg user) page))
       (pureBody (fold (discoverIssue cfg))) 0 (exitValue [] exit1) lg1 = Some (exit2, page2, lg2)"
    "paginate (\<lambda>page. retryWithBackoff 5 (callSearchIssues c (reviewedQuery cfg user) page))
       (pureBody (fold (discoverIssue cfg))) page2 (exitValue [] exit2) lg2 = Some (exit3, page3, lg')"
    "repos = go_range (rangeSeed cfg user) (map fst (exitValue [] exit3))"
  using assms
  by (auto simp: getUserRepositories_def Let_def split: option.splits prod.splits)

lemma keys_grow: "S \<subseteq> fst ` set m \<Longrightarrow> S \<subseteq> fst ` set (discoverIssue cfg issue m)"
  by (auto simp: discoverIssue_keys)

lemma getUserRepositories_invariant:
  assumes "getUserRepositories cfg c user lg = Some (repos, lg')"
      and "I []"
      and "\<And>issue m. I m \<Longrightarrow> I (discoverIssue cfg issue m)"
  shows "\<exists>m. I m \<and> repos = go_range (rangeSeed cfg user) (map fst m)"
proof -
  from assms(1) obtain exit1 page1 lg1 exit2 page2 lg2 exit3 page3 where
    l1: "paginate (\<lambda>page. retryWithBackoff 5 (callSearchIssues c (authoredQuery cfg user) page))
       (pureBody (fold (discoverIssue cfg))) 0 [] lg = Some (exit1, page1, lg1)" and
    l2: "paginate (\<lambda>page. retryWithBackoff 5 (callSearchIssues c (commentedQuery cfg user) page))
       (pureBody (fold (discoverIssue cfg))) 0 (exitValue [] exit1) lg1 = Some (exit2, page2, lg2)" and
    l3: "paginate (\<lambda>page. retryWithBackoff 5 (callSearchIssues c (reviewedQuery cfg user) page))
       (pureBody (fold (discoverIssue cfg))) page2 (exitValue [] exit2) lg2 = Some (exit3, page3, lg')" and
    res: "repos = go_range (rangeSeed cfg user) (map fst (exitValue [] exit3))"
    by (rule getUserRepositories_loops)
  have "I (exitValue [] exit1)"
    by (rule discovery_loop_exit [where I = I, OF l1 assms(2) assms(3)])
  then have "I (exitValue [] exit2)"
    by (rule discovery_loop_exit [where I = I, OF l2 _ assms(3)])
  then have "I (exitValue [] exit3)"
    by (rule discovery_loop_exit [where I = I, OF l3 _ assms(3)])
  with res show ?thesis by blast
qed

lemma discoverIssue_organization:
  assumes "organization cfg \<noteq> []"
      and "\<forall>r \<in> fst ` set m. inOrganization (organization cfg) r"
  shows "\<forall>r \<in> fst ` set (discoverIssue cfg issue m). inOrganization (organization cfg) r"
proof (cases "IsPullRequest issue \<and> parseRepoURL (RepositoryURL issue) \<noteq> [] \<and>
              HasPrefix (parseRepoURL (RepositoryURL issue)) (organization cfg @ ''/'')")
  case True
  then obtain a b where
    ab: "parseRepoURL (RepositoryURL issue) = a @ ''/'' @ b"
        "CHR ''/'' \<notin> set a" "CHR ''/'' \<notin> set b"
    using parseRepoURL_shape [of "RepositoryURL issue"] by auto
  from True ab(1) have "HasPrefix (a @ ''/'' @ b) (organization cfg @ ''/'')" by simp
  then have "organization cfg = a" using ab(2,3) by (rule HasPrefix_owner)
  with ab have "inOrganization (organization cfg) (parseRepoURL (RepositoryURL issue))"
    by auto
  moreover have "fst ` set (discoverIssue cfg issue m)
                 = insert (parseRepoURL (RepositoryURL issue)) (fst ` set m)"
    using True by (simp add: discoverIssue_def Let_def dom_update)
  ultimately show ?thesis using assms(2) by simp
next
  case False
  then have "discoverIssue cfg issue m = m"
    using assms(1) by (auto simp: discoverIssue_def Let_def)
  then show ?thesis using assms(2) by simp
qed

lemma parseRepo_inOrganization:
  "inOrganization org r \<Longrightarrow> \<exists>name. r = org @ ''/'' @ name \<and> parseRepo r = (org, name)"
  by (auto simp: parseRepo_def Split_at_first Split_plain)

section \<open>The end-to-end scenario, evaluated\<close>

lemmas call_defs = callListCommits_def callGetCommit_def callListByRepo_def callSearchIssues_def
lemmas alice_defs = aliceClient_def aliceConfig_def aliceCommits_def alicePR_def pagedList_def
  aliceDetails_def

lemmas collector_defs = getCommits_def getHoC_def getIssues_def getLcP_def getMsgs_def getPulls_def
  getReviews_def leave_def pureBody_def hocCommit_def lcpIssue_def lcpResult_def countedCommit_def
  isMergeCommit_def
  msgsQuery_def pullsQuery_def reviewsQuery_def

lemma alice_repos: "getUserRepositories aliceConfig aliceClient ''alice'' [] = Some
  ([''org/repo''],
   [SearchIssuesReq ''author:alice created:>2026-10-04 03:31:00 +0000 UTC''
     0,
    SearchIssuesReq ''commenter:alice created:>2026-10-04'' 0,
    SearchIssuesReq ''reviewed-by:alice created:>2026-10-04'' 0])"
  by (simp add: getUserRepositories_def paginate.simps pureBody_def discoverIssue_def
      parseRepoURL_def HasPrefix_def call_defs alice_defs authoredQuery_def commentedQuery_def
      reviewedQuery_def eval_nat_numeral)


lemma alice_commits: "getCommits aliceClient ''org'' ''repo'' ''alice'' lg =
    Some (Inr 3, lg @ [ListCommitsReq ''org'' ''repo'' ''alice'' 0])"
  by (simp add: collector_defs paginate.simps call_defs alice_defs eval_nat_numeral)

lemma alice_hoc: "getHoC aliceClient ''org'' ''repo'' ''alice'' lg = Some
  (Inr 90,
   lg @ [ListCommitsReq ''org'' ''repo'' ''alice'' 0,
    GetCommitReq ''org'' ''repo'' ''c1'',
    GetCommitReq ''org'' ''repo'' ''c2'',
    GetCommitReq ''org'' ''repo'' ''c3''])"
  by (simp add: collector_defs paginate.simps call_defs alice_defs eval_nat_numeral)

lemma alice_issues: "getIssues aliceClient ''org'' ''repo'' ''alice'' lg =
    Some (Inr 0, lg @ [ListByRepoReq ''org'' ''repo'' ''alice'' [] 0])"
  by (simp add: collector_defs paginate.simps call_defs alice_defs eval_nat_numeral)

lemma alice_lcp: "getLcP aliceClient ''org'' ''repo'' ''alice'' lg =
    Some (Inr 2, lg @ [ListByRepoReq ''org'' ''repo'' ''alice'' ''closed'' 0])"
  by (simp add: collector_defs paginate.simps call_defs alice_defs eval_nat_numeral)

lemma alice_msgs: "getMsgs aliceConfig aliceClient ''org'' ''repo'' ''alice'' lg =
    Some (Inr 0, lg @ [SearchIssuesReq ''repo:org/repo is:pr commenter:alice created:>2026-10-04'' 0])"
  by (simp add: collector_defs paginate.simps call_defs alice_defs eval_nat_numeral)

lemma alice_pulls: "getPulls aliceConfig aliceClient ''org'' ''repo'' ''alice'' lg =
    Some (Inr 1, lg @ [SearchIssuesReq ''repo:org/repo is:pr author:alice merged:>2026-10-04'' 0])"
  by (simp add: collector_defs paginate.simps call_defs alice_defs eval_nat_numeral)

lemma alice_reviews: "getReviews aliceConfig aliceClient ''org'' ''repo'' ''alice'' lg =
    Some (Inr 0, lg @ [SearchIssuesReq ''repo:org/repo reviewed-by:alice is:pr merged:>2026-10-04'' 0])"
  by (simp add: collector_defs paginate.simps call_defs alice_defs eval_nat_numeral)

lemma alice_render: "renderOK aliceConfig"
  by (simp add: aliceConfig_def)

lemma alice_run:
  "calculateMetrics aliceConfig aliceClient [''alice''] ''all'' =
     Some (Inr [''alice'' \<mapsto>
       \<lparr>Commits = 3, HoC = 90, Issues = 0, LcP = 2, Msgs = 0, Pulls = 1, Reviews = 0,
        Score = 355, Repos = Some [(''org/repo'', 90)]\<rparr>], aliceTrace)"
  by (simp add: calculateMetrics_def alice_repos parseRepo_def collectRepo_def bind_run_def
      alice_commits alice_hoc alice_issues alice_lcp alice_msgs alice_pulls alice_reviews
      alice_render metricsAt_def zeroUserMetrics_def
      updateUserMetrics_def calculateScore_exact scoreMagnitude_def map_add_at_def map_index_def
      mapEntries_def aliceTrace_def)


section \<open>The score\<close>

text \<open>
  C1 (as amended). When \<open>calculateMetrics\<close> returns, the \<open>Score\<close> of every user it
  holds an accumulator for is \<open>calculateScore\<close> of that accumulator's own totals: the
  sum HoC*1 + Pulls*250 + Issues*50 + Commits*5 + Reviews*150 + Msgs*5 evaluated in
  \<^verbatim>\<open>float64\<close>, recomputed from the totals and not accumulated. It is exactly that
  sum whenever the weighted sum of the magnitudes of the six totals is at most
  \<open>2 ^ 53\<close>. The same holds of the accumulator built from any sequence of
  contributions. \<open>LcP\<close> does not occur in the sum.
\<close>

theorem score_is_weighted_sum:
  assumes "calculateMetrics cfg c users metric = Some (Inr metrics, lg)"
      and "metrics user = Some m"
  shows "Score m = calculateScore m
         \<and> (scoreMagnitude m \<le> 2 ^ 53 \<longrightarrow>
              Score m =
                real_of_int (sint (HoC m)) * 1 + real_of_int (sint (Pulls m)) * 250
                + real_of_int (sint (Issues m)) * 50 + real_of_int (sint (Commits m)) * 5
                + real_of_int (sint (Reviews m)) * 150 + real_of_int (sint (Msgs m)) * 5)
         \<and> Score (aggregate updates) = calculateScore (aggregate updates)
         \<and> (scoreMagnitude (aggregate updates) \<le> 2 ^ 53 \<longrightarrow>
              Score (aggregate updates) =
                real_of_int (sint (HoC (aggregate updates))) * 1
                + real_of_int (sint (Pulls (aggregate updates))) * 250
                + real_of_int (sint (Issues (aggregate updates))) * 50
                + real_of_int (sint (Commits (aggregate updates))) * 5
                + real_of_int (sint (Reviews (aggregate updates))) * 150
                + real_of_int (sint (Msgs (aggregate updates))) * 5)"
proof -
  have run: "Score m = calculateScore m"
    by (rule calculateMetrics_invariant
          [where Q = "\<lambda>m. Score m = calculateScore m", OF assms(1) _ assms(2)])
       (rule updateUserMetrics_Score)
  have agg: "Score (aggregate updates) = calculateScore (aggregate updates)"
    by (rule aggregate_Score)
  have exact1: "scoreMagnitude m \<le> 2 ^ 53 \<longrightarrow>
      Score m =
        real_of_int (sint (HoC m)) * 1 + real_of_int (sint (Pulls m)) * 250
        + real_of_int (sint (Issues m)) * 50 + real_of_int (sint (Commits m)) * 5
        + real_of_int (sint (Reviews m)) * 150 + real_of_int (sint (Msgs m)) * 5"
    unfolding run by (rule impI) (rule calculateScore_exact)
  have exact2: "scoreMagnitude (aggregate updates) \<le> 2 ^ 53 \<longrightarrow>
      Score (aggregate updates) =
        real_of_int (sint (HoC (aggregate updates))) * 1
        + real_of_int (sint (Pulls (aggregate updates))) * 250
        + real_of_int (sint (Issues (aggregate updates))) * 50
        + real_of_int (sint (Commits (aggregate updates))) * 5
        + real_of_int (sint (Reviews (aggregate updates))) * 150
        + real_of_int (sint (Msgs (aggregate updates))) * 5"
    unfolding agg by (rule impI) (rule calculateScore_exact)
  show ?thesis
    by (intro conjI) (rule run exact1 agg exact2)+
qed

theorem score_is_weighted_sum_witness:
  "calculateMetrics aliceConfig aliceClient [''alice''] ''all''
     = Some (Inr [''alice'' \<mapsto> aliceTotals], aliceTrace)
   \<and> [''alice'' \<mapsto> aliceTotals] ''alice'' = Some aliceTotals
   \<and> scoreMagnitude aliceTotals = 355
   \<and> Score aliceTotals =
       real_of_int (sint (HoC aliceTotals)) * 1 + real_of_int (sint (Pulls aliceTotals)) * 250
       + real_of_int (sint (Issues aliceTotals)) * 50 + real_of_int (sint (Commits aliceTotals)) * 5
       + real_of_int (sint (Reviews aliceTotals)) * 150 + real_of_int (sint (Msgs aliceTotals)) * 5
   \<and> Score aliceTotals = 355
   \<and> aggregate [zeroUserMetrics\<lparr>Pulls := 2\<rparr>, zeroUserMetrics\<lparr>Commits := 7\<rparr>]
       = \<lparr>Commits = 7, HoC = 0, Issues = 0, LcP = 0, Msgs = 0, Pulls = 2, Reviews = 0,
          Score = 535, Repos = Some []\<rparr>
   \<and> scoreMagnitude (aggregate [zeroUserMetrics\<lparr>Pulls := 2\<rparr>, zeroUserMetrics\<lparr>Commits := 7\<rparr>])
       = 535"
proof -
  have run: "calculateMetrics aliceConfig aliceClient [''alice''] ''all''
               = Some (Inr [''alice'' \<mapsto> aliceTotals], aliceTrace)"
    by (simp add: alice_run aliceTotals_def)
  have at: "[''alice'' \<mapsto> aliceTotals] ''alice'' = Some aliceTotals"
    by simp
  have agg: "aggregate [zeroUserMetrics\<lparr>Pulls := 2\<rparr>, zeroUserMetrics\<lparr>Commits := 7\<rparr>]
       = \<lparr>Commits = 7, HoC = 0, Issues = 0, LcP = 0, Msgs = 0, Pulls = 2, Reviews = 0,
          Score = 535, Repos = Some []\<rparr>"
    by (simp add: aggregate_def updateUserMetrics_def calculateScore_exact scoreMagnitude_def
        zeroUserMetrics_def mapEntries_def)
  have mag: "scoreMagnitude aliceTotals = 355" by (simp add: aliceTotals_def scoreMagnitude_def)
  have mag2: "scoreMagnitude \<lparr>Commits = 7, HoC = 0, Issues = 0, LcP = 0, Msgs = 0, Pulls = 2,
          Reviews = 0, Score = 535, Repos = Some []\<rparr> = 535"
    by (simp add: scoreMagnitude_def)
  have tot: "Score aliceTotals = 355" by (simp add: aliceTotals_def)
  from score_is_weighted_sum [OF run at, of "[zeroUserMetrics\<lparr>Pulls := 2\<rparr>,
      zeroUserMetrics\<lparr>Commits := 7\<rparr>]"] run at agg mag mag2 tot
  show ?thesis by simp
qed

text \<open>
  C1 as stated, an exact equality for every sequence of contributions, fails once a
  total leaves the range in which binary64 holds every whole number. One contribution
  of \<open>2 ^ 53 + 1\<close> lines gives the total HoC = 9007199254740993, which the conversion
  to \<^verbatim>\<open>float64\<close> rounds to 9007199254740992; and with Pulls = \<open>2 ^ 47 + 1\<close> the
  product by 250 is rounded.
\<close>

theorem score_rounding_counterexample:
  "HoC (aggregate [zeroUserMetrics\<lparr>HoC := 9007199254740993\<rparr>]) = 9007199254740993
   \<and> sint (HoC (aggregate [zeroUserMetrics\<lparr>HoC := 9007199254740993\<rparr>])) = 9007199254740993
   \<and> Pulls (aggregate [zeroUserMetrics\<lparr>HoC := 9007199254740993\<rparr>]) = 0
   \<and> Issues (aggregate [zeroUserMetrics\<lparr>HoC := 9007199254740993\<rparr>]) = 0
   \<and> Commits (aggregate [zeroUserMetrics\<lparr>HoC := 9007199254740993\<rparr>]) = 0
   \<and> Reviews (aggregate [zeroUserMetrics\<lparr>HoC := 9007199254740993\<rparr>]) = 0
   \<and> Msgs (aggregate [zeroUserMetrics\<lparr>HoC := 9007199254740993\<rparr>]) = 0
   \<and> Score (aggregate [zeroUserMetrics\<lparr>HoC := 9007199254740993\<rparr>]) = 9007199254740992
   \<and> Score (aggregate [zeroUserMetrics\<lparr>HoC := 9007199254740993\<rparr>])
       \<noteq> real_of_int (sint (HoC (aggregate [zeroUserMetrics\<lparr>HoC := 9007199254740993\<rparr>]))) * 1
         + real_of_int (sint (Pulls (aggregate [zeroUserMetrics\<lparr>HoC := 9007199254740993\<rparr>]))) * 250
         + real_of_int (sint (Issues (aggregate [zeroUserMetrics\<lparr>HoC := 9007199254740993\<rparr>]))) * 50
         + real_of_int (sint (Commits (aggregate [zeroUserMetrics\<lparr>HoC := 9007199254740993\<rparr>]))) * 5
         + real_of_int (sint (Reviews (aggregate [zeroUserMetrics\<lparr>HoC := 9007199254740993\<rparr>]))) * 150
         + real_of_int (sint (Msgs (aggregate [zeroUserMetrics\<lparr>HoC := 9007199254740993\<rparr>]))) * 5
   \<and> Score (aggregate [zeroUserMetrics\<lparr>Pulls := 140737488355329\<rparr>]) = 35184372088832248
   \<and> real_of_int (sint (Pulls (aggregate [zeroUserMetrics\<lparr>Pulls := 140737488355329\<rparr>]))) * 250
       = 35184372088832250"
proof -
  have hoc: "calculateScore \<lparr>Commits = 0, HoC = 9007199254740993, Issues = 0, LcP = 0, Msgs = 0,
                Pulls = 0, Reviews = 0, Score = s, Repos = r\<rparr> = 9007199254740992" for s r
    by (simp add: calculateScore_def float64_defs roundEven_def bitLen.simps)
  have pulls: "calculateScore \<lparr>Commits = 0, HoC = 0, Issues = 0, LcP = 0, Msgs = 0,
                Pulls = 140737488355329, Reviews = 0, Score = s, Repos = r\<rparr>
                = 35184372088832248" for s r
    by (simp add: calculateScore_def float64_defs roundEven_def bitLen.simps)
  have a: "aggregate [zeroUserMetrics\<lparr>HoC := 9007199254740993\<rparr>]
             = \<lparr>Commits = 0, HoC = 9007199254740993, Issues = 0, LcP = 0, Msgs = 0, Pulls = 0,
                Reviews = 0, Score = 9007199254740992, Repos = Some []\<rparr>"
    by (simp add: aggregate_def updateUserMetrics_def zeroUserMetrics_def mapEntries_def hoc)
  have b: "aggregate [zeroUserMetrics\<lparr>Pulls := 140737488355329\<rparr>]
             = \<lparr>Commits = 0, HoC = 0, Issues = 0, LcP = 0, Msgs = 0, Pulls = 140737488355329,
                Reviews = 0, Score = 35184372088832248, Repos = Some []\<rparr>"
    by (simp add: aggregate_def updateUserMetrics_def zeroUserMetrics_def mapEntries_def pulls)
  show ?thesis unfolding a b by simp
qed

text \<open>
  C2 (as amended). In the scenario of alice (three non-merge commits adding 40 and
  deleting 10 lines, 50 changes; one merged pull request; nothing else) the run with
  every metric selected returns Commits = 3, HoC = 90 (additions plus changes),
  Pulls = 1, Issues = 0, Reviews = 0, Msgs = 0 and Score = 90 + 250 + 3 * 5 = 355.
\<close>

theorem alice_scenario_totals:
  "aliceOutcome =
     Some \<lparr>Commits = 3, HoC = 90, Issues = 0, LcP = 2, Msgs = 0, Pulls = 1, Reviews = 0,
           Score = 355, Repos = Some [(''org/repo'', 90)]\<rparr>"
  by (simp add: aliceOutcome_def alice_run)

text \<open>
  C2 as stated (HoC = 50 and Score = 300) does not hold of that run: the lines-touched
  total counts the additions beside the changes, and the three commits add 15 to the score.
\<close>

theorem alice_scenario_counterexample:
  "map_option HoC aliceOutcome \<noteq> Some 50 \<and> map_option Score aliceOutcome \<noteq> Some 300"
  by (simp add: aliceOutcome_def alice_run)

section \<open>Further runs, evaluated\<close>

lemma getReviews_fetch_failed:
  assumes "\<And>l. \<exists>status. SearchIssues c l (reviewsQuery cfg owner repo user) 0 = Failure status"
  shows "getReviews cfg c owner repo user lg
           = Some (Inl PanicInterfaceConversion,
                   lg @ replicate 5 (SearchIssuesReq (reviewsQuery cfg owner repo user) 0))"
proof -
  have "\<And>l. \<exists>status. callSearchIssues c (reviewsQuery cfg owner repo user) 0 l
          = (Failure status, l @ [SearchIssuesReq (reviewsQuery cfg owner repo user) 0])"
    using assms by (simp add: callSearchIssues_def)
  from retry_all_fail [OF this, of 5 lg] show ?thesis
    by (simp add: getReviews_def leave_def paginate.simps)
qed

lemma getPulls_fetch_failed:
  assumes "\<And>l. \<exists>status. SearchIssues c l (pullsQuery cfg owner repo user) 0 = Failure status"
  shows "getPulls cfg c owner repo user lg
           = Some (Inr 0, lg @ replicate 5 (SearchIssuesReq (pullsQuery cfg owner repo user) 0))"
proof -
  have "\<And>l. \<exists>status. callSearchIssues c (pullsQuery cfg owner repo user) 0 l
          = (Failure status, l @ [SearchIssuesReq (pullsQuery cfg owner repo user) 0])"
    using assms by (simp add: callSearchIssues_def)
  from retry_all_fail [OF this, of 5 lg] show ?thesis
    by (simp add: getPulls_def leave_def paginate.simps)
qed

lemma reviewsDown_repos:
  "getUserRepositories aliceConfig reviewsDownClient ''alice'' [] = Some
  ([''org/repo''],
   [SearchIssuesReq ''author:alice created:>2026-10-04 03:31:00 +0000 UTC'' 0,
    SearchIssuesReq ''commenter:alice created:>2026-10-04'' 0,
    SearchIssuesReq ''reviewed-by:alice created:>2026-10-04'' 0])"
  by (simp add: getUserRepositories_def paginate.simps pureBody_def discoverIssue_def
      parseRepoURL_def HasPrefix_def call_defs reviewsDownClient_def alice_defs authoredQuery_def
      commentedQuery_def reviewedQuery_def eval_nat_numeral)

lemma reviewsDown_reviews:
  "getReviews aliceConfig reviewsDownClient ''org'' ''repo'' ''alice'' lg
     = Some (Inl PanicInterfaceConversion,
             lg @ replicate 5
               (SearchIssuesReq ''repo:org/repo reviewed-by:alice is:pr merged:>2026-10-04'' 0))"
proof -
  have "\<And>l. \<exists>status. SearchIssues reviewsDownClient l
                 (reviewsQuery aliceConfig ''org'' ''repo'' ''alice'') 0 = Failure status"
    by (simp add: reviewsDownClient_def reviewsQuery_def aliceConfig_def)
  from getReviews_fetch_failed [OF this, of lg] show ?thesis
    by (simp add: reviewsQuery_def aliceConfig_def)
qed

lemma discovery_run:
  "getUserRepositories aliceConfig discoveryClient ''alice'' [] = Some
     ([''org/a'', ''org/b'', ''org/d''],
      [SearchIssuesReq ''author:alice created:>2026-10-04 03:31:00 +0000 UTC'' 0,
       SearchIssuesReq ''commenter:alice created:>2026-10-04'' 0,
       SearchIssuesReq ''commenter:alice created:>2026-10-04'' 2,
       SearchIssuesReq ''reviewed-by:alice created:>2026-10-04'' 2])"
  by (simp add: getUserRepositories_def paginate.simps pureBody_def discoverIssue_def
      parseRepoURL_def HasPrefix_def call_defs discoveryClient_def discoveryAuthored_def discoveryCommented_def
      discoveryReviewed_def prIn_def aliceConfig_def authoredQuery_def commentedQuery_def
      reviewedQuery_def
      pagedList_def eval_nat_numeral)

lemma mergeClient_commits:
  "ListCommits (pagedClient mergePages aliceDetails issuePages) l ''org'' ''repo'' ''alice'' p
     = pagedList mergePages p"
  by (simp add: pagedClient_def)

lemma mergeClient_details:
  "GetCommit (pagedClient mergePages aliceDetails issuePages) l ''org'' ''repo'' sha
     = aliceDetails sha"
  by (simp add: pagedClient_def)

lemma lcp_empty: "lcpResult (fold lcpIssue [] (0, 0)) = 0"
  by (simp add: lcpResult_def)


section \<open>Merge commits\<close>

lemma countedCommit_iff:
  "countedCommit user commit \<longleftrightarrow> Author commit = Some user \<and> length (Parents commit) \<le> 1"
  by (auto simp: countedCommit_def isMergeCommit_def split: option.splits)

text \<open>
  C3. On a commit listing served in pages with any mixture of merge and non-merge
  commits, \<open>getCommits\<close> returns the number of listed commits that are authored by
  the user and have at most one parent, and \<open>getHoC\<close> requests the detail of exactly
  those commits, in order, and adds up their lines: a commit with more than one parent
  is neither counted nor fetched.
\<close>

theorem merge_commits_not_counted:
  assumes "\<And>l p. ListCommits c l owner repo user p = pagedList pages p"
      and "\<And>l sha. GetCommit c l owner repo sha = details sha"
  shows "\<exists>tr1 tr2.
           getCommits c owner repo user lg
             = Some (Inr (of_nat (length (filter
                   (\<lambda>commit. Author commit = Some user \<and> length (Parents commit) \<le> 1)
                   (concat pages)))), lg @ tr1)
         \<and> getHoC c owner repo user lg
             = Some (Inr (sum_list (map (\<lambda>commit. linesTouched (details (SHA commit)))
                   (filter (\<lambda>commit. Author commit = Some user \<and> length (Parents commit) \<le> 1)
                      (concat pages)))), lg @ tr2)
         \<and> filter (\<lambda>q. \<not> isPageRequest q) tr2
             = map (\<lambda>commit. GetCommitReq owner repo (SHA commit))
                 (filter (\<lambda>commit. Author commit = Some user \<and> length (Parents commit) \<le> 1)
                    (concat pages))"
proof -
  have eq: "countedCommit user = (\<lambda>commit. Author commit = Some user \<and> length (Parents commit) \<le> 1)"
    by (rule ext) (rule countedCommit_iff)
  from getCommits_paged [OF assms(1), of lg] getHoC_paged [OF assms, of lg]
  show ?thesis unfolding eq by blast
qed

theorem merge_commits_not_counted_witness:
  "(\<forall>l p. ListCommits (pagedClient mergePages aliceDetails issuePages) l ''org'' ''repo'' ''alice'' p
            = pagedList mergePages p)
   \<and> (\<forall>l sha. GetCommit (pagedClient mergePages aliceDetails issuePages) l ''org'' ''repo'' sha
            = aliceDetails sha)
   \<and> (\<exists>tr1 tr2.
         getCommits (pagedClient mergePages aliceDetails issuePages) ''org'' ''repo'' ''alice'' []
           = Some (Inr 3, tr1)
       \<and> getHoC (pagedClient mergePages aliceDetails issuePages) ''org'' ''repo'' ''alice'' []
           = Some (Inr 90, tr2)
       \<and> filter (\<lambda>q. \<not> isPageRequest q) tr2
           = [GetCommitReq ''org'' ''repo'' ''c1'', GetCommitReq ''org'' ''repo'' ''c2'',
              GetCommitReq ''org'' ''repo'' ''c3''])"
proof -
  have h1: "\<forall>l p. ListCommits (pagedClient mergePages aliceDetails issuePages) l
                     ''org'' ''repo'' ''alice'' p = pagedList mergePages p"
    by (simp add: mergeClient_commits)
  have h2: "\<forall>l sha. GetCommit (pagedClient mergePages aliceDetails issuePages) l
                     ''org'' ''repo'' sha = aliceDetails sha"
    by (simp add: mergeClient_details)
  have v1: "of_nat (length (filter
               (\<lambda>commit. Author commit = Some ''alice'' \<and> length (Parents commit) \<le> 1)
               (concat mergePages))) = (3 :: go_int)"
    by (simp add: mergePages_def)
  have v2: "sum_list (map (\<lambda>commit. linesTouched (aliceDetails (SHA commit)))
               (filter (\<lambda>commit. Author commit = Some ''alice'' \<and> length (Parents commit) \<le> 1)
                  (concat mergePages))) = 90"
    by (simp add: mergePages_def aliceDetails_def linesTouched_def)
  have v3: "map (\<lambda>commit. GetCommitReq ''org'' ''repo'' (SHA commit))
               (filter (\<lambda>commit. Author commit = Some ''alice'' \<and> length (Parents commit) \<le> 1)
                  (concat mergePages))
            = [GetCommitReq ''org'' ''repo'' ''c1'', GetCommitReq ''org'' ''repo'' ''c2'',
               GetCommitReq ''org'' ''repo'' ''c3'']"
    by (simp add: mergePages_def)
  have "\<exists>tr1 tr2.
         getCommits (pagedClient mergePages aliceDetails issuePages) ''org'' ''repo'' ''alice'' []
           = Some (Inr 3, tr1)
       \<and> getHoC (pagedClient mergePages aliceDetails issuePages) ''org'' ''repo'' ''alice'' []
           = Some (Inr 90, tr2)
       \<and> filter (\<lambda>q. \<not> isPageRequest q) tr2
           = [GetCommitReq ''org'' ''repo'' ''c1'', GetCommitReq ''org'' ''repo'' ''c2'',
              GetCommitReq ''org'' ''repo'' ''c3'']"
    using merge_commits_not_counted [OF mergeClient_commits mergeClient_details, of "[]"]
    unfolding v1 v2 v3 by simp
  with h1 h2 show ?thesis by blast
qed

section \<open>Failures of the remote\<close>

text \<open>
  C4, at the failing input. With the search for reviewed pull requests failing on
  every attempt, \<open>getReviews\<close> makes its five attempts and then panics at the
  conversion of the nil result, and a run that selects the reviews metric ends with
  that panic instead of a zero contribution. (Its sibling \<open>getPulls\<close> returns 0 on
  the same failure, see \<open>getPulls_fetch_failed\<close>.)
\<close>

theorem reviews_failure_is_fatal:
  "getReviews aliceConfig reviewsDownClient ''org'' ''repo'' ''alice'' []
     = Some (Inl PanicInterfaceConversion,
             replicate 5
               (SearchIssuesReq ''repo:org/repo reviewed-by:alice is:pr merged:>2026-10-04'' 0))
   \<and> calculateMetrics aliceConfig reviewsDownClient [''alice''] ''reviews''
     = Some (Inl PanicInterfaceConversion,
             [SearchIssuesReq ''author:alice created:>2026-10-04 03:31:00 +0000 UTC'' 0,
              SearchIssuesReq ''commenter:alice created:>2026-10-04'' 0,
              SearchIssuesReq ''reviewed-by:alice created:>2026-10-04'' 0]
             @ replicate 5
               (SearchIssuesReq ''repo:org/repo reviewed-by:alice is:pr merged:>2026-10-04'' 0))"
  using reviewsDown_reviews [of "[]"]
  by (simp add: calculateMetrics_def reviewsDown_repos parseRepo_def collectRepo_def bind_run_def
      reviewsDown_reviews)

section \<open>Discovery\<close>

text \<open>
  C5, at the failing input. The commented-on query has two pages, so the loop over it
  leaves page 2 in the search options; the loop over the reviewed query starts there.
  The pull request in org/c on page 1 of the reviewed query is never requested and
  org/c is missing from the result.
\<close>

theorem discovery_misses_reviewed_page:
  "SearchIssues discoveryClient [] ''reviewed-by:alice created:>2026-10-04'' 1
     = Success [prIn ''org/c''] 2
   \<and> parseRepoURL (RepositoryURL (prIn ''org/c'')) = ''org/c''
   \<and> getUserRepositories aliceConfig discoveryClient ''alice'' [] = Some
     ([''org/a'', ''org/b'', ''org/d''],
      [SearchIssuesReq ''author:alice created:>2026-10-04 03:31:00 +0000 UTC'' 0,
       SearchIssuesReq ''commenter:alice created:>2026-10-04'' 0,
       SearchIssuesReq ''commenter:alice created:>2026-10-04'' 2,
       SearchIssuesReq ''reviewed-by:alice created:>2026-10-04'' 2])
   \<and> ''org/c'' \<notin> set [''org/a'', ''org/b'', ''org/d'']"
  by (simp add: discovery_run)
    (simp add: discoveryClient_def discoveryReviewed_def pagedList_def prIn_def parseRepoURL_def)

text \<open>
  C6. The list \<open>getUserRepositories\<close> returns has no duplicates, in however many
  queries and pages an identifier was found. An identifier found in two of the three
  queries is on a page of the authored or of the commented-on query; when that query
  is served in pages, the identifier is in the list, exactly once.
\<close>

theorem discovery_exactly_once:
  assumes "getUserRepositories cfg c user lg = Some (repos, lg')"
  shows "distinct repos
       \<and> ((\<forall>l p. SearchIssues c l (authoredQuery cfg user) p = pagedList authoredPgs p) \<longrightarrow>
            (\<forall>issue \<in> set (concat authoredPgs). discovers cfg issue \<longrightarrow>
               count_list repos (parseRepoURL (RepositoryURL issue)) = 1))
       \<and> ((\<forall>l p. SearchIssues c l (commentedQuery cfg user) p = pagedList commentedPgs p) \<longrightarrow>
            (\<forall>issue \<in> set (concat commentedPgs). discovers cfg issue \<longrightarrow>
               count_list repos (parseRepoURL (RepositoryURL issue)) = 1))"
proof -
  from assms obtain exit1 page1 lg1 exit2 page2 lg2 exit3 page3 where
    l1: "paginate (\<lambda>page. retryWithBackoff 5 (callSearchIssues c (authoredQuery cfg user) page))
       (pureBody (fold (discoverIssue cfg))) 0 [] lg = Some (exit1, page1, lg1)" and
    l2: "paginate (\<lambda>page. retryWithBackoff 5 (callSearchIssues c (commentedQuery cfg user) page))
       (pureBody (fold (discoverIssue cfg))) 0 (exitValue [] exit1) lg1 = Some (exit2, page2, lg2)" and
    l3: "paginate (\<lambda>page. retryWithBackoff 5 (callSearchIssues c (reviewedQuery cfg user) page))
       (pureBody (fold (discoverIssue cfg))) page2 (exitValue [] exit2) lg2 = Some (exit3, page3, lg')" and
    res: "repos = go_range (rangeSeed cfg user) (map fst (exitValue [] exit3))"
    by (rule getUserRepositories_loops)
  define m1 where "m1 = exitValue [] exit1"
  define m2 where "m2 = exitValue [] exit2"
  define m3 where "m3 = exitValue [] exit3"
  have d1: "distinct (map fst m1)" unfolding m1_def
    by (rule discovery_loop_exit [where I = "\<lambda>m. distinct (map fst m)", OF l1])
       (simp_all add: discoverIssue_distinct)
  have d2: "distinct (map fst m2)" unfolding m2_def
    by (rule discovery_loop_exit [where I = "\<lambda>m. distinct (map fst m)", OF l2])
       (simp_all add: discoverIssue_distinct d1 [unfolded m1_def])
  have d3: "distinct (map fst m3)" unfolding m3_def
    by (rule discovery_loop_exit [where I = "\<lambda>m. distinct (map fst m)", OF l3])
       (simp_all add: discoverIssue_distinct d2 [unfolded m2_def])
  have dist: "distinct repos" using d3 by (simp add: res m3_def go_range_distinct)
  have k12: "fst ` set m1 \<subseteq> fst ` set m2" unfolding m2_def
    by (rule discovery_loop_exit [where I = "\<lambda>m. fst ` set m1 \<subseteq> fst ` set m", OF l2])
       (simp_all add: m1_def keys_grow)
  have k23: "fst ` set m2 \<subseteq> fst ` set m3" unfolding m3_def
    by (rule discovery_loop_exit [where I = "\<lambda>m. fst ` set m2 \<subseteq> fst ` set m", OF l3])
       (simp_all add: m2_def keys_grow)
  have reposet: "set repos = fst ` set m3" by (simp add: res m3_def go_range_set)
  have a: "count_list repos (parseRepoURL (RepositoryURL issue)) = 1"
    if st: "\<forall>l p. SearchIssues c l (authoredQuery cfg user) p = pagedList authoredPgs p"
      and mem: "issue \<in> set (concat authoredPgs)" and dis: "discovers cfg issue" for issue
  proof -
    have "m1 = fold (discoverIssue cfg) (concat authoredPgs) []"
      unfolding m1_def using st l1 by (intro discovery_loop_paged) auto
    then have "parseRepoURL (RepositoryURL issue) \<in> fst ` set m1"
      using mem dis by (simp add: fold_discoverIssue_keys)
    then have "parseRepoURL (RepositoryURL issue) \<in> set repos"
      using k12 k23 reposet by blast
    with dist show ?thesis by (rule count_list_distinct)
  qed
  have b: "count_list repos (parseRepoURL (RepositoryURL issue)) = 1"
    if st: "\<forall>l p. SearchIssues c l (commentedQuery cfg user) p = pagedList commentedPgs p"
      and mem: "issue \<in> set (concat commentedPgs)" and dis: "discovers cfg issue" for issue
  proof -
    have "m2 = fold (discoverIssue cfg) (concat commentedPgs) m1"
      unfolding m2_def m1_def using st l2 by (intro discovery_loop_paged) auto
    then have "parseRepoURL (RepositoryURL issue) \<in> fst ` set m2"
      using mem dis by (simp add: fold_discoverIssue_keys)
    then have "parseRepoURL (RepositoryURL issue) \<in> set repos"
      using k23 reposet by blast
    with dist show ?thesis by (rule count_list_distinct)
  qed
  from dist a b show ?thesis by blast
qed


theorem discovery_exactly_once_witness:
  "getUserRepositories aliceConfig discoveryClient ''alice'' [] = Some
     ([''org/a'', ''org/b'', ''org/d''],
      [SearchIssuesReq ''author:alice created:>2026-10-04 03:31:00 +0000 UTC'' 0,
       SearchIssuesReq ''commenter:alice created:>2026-10-04'' 0,
       SearchIssuesReq ''commenter:alice created:>2026-10-04'' 2,
       SearchIssuesReq ''reviewed-by:alice created:>2026-10-04'' 2])
   \<and> (\<forall>l p. SearchIssues discoveryClient l (authoredQuery aliceConfig ''alice'') p
               = pagedList discoveryAuthored p)
   \<and> (\<forall>l p. SearchIssues discoveryClient l (commentedQuery aliceConfig ''alice'') p
               = pagedList discoveryCommented p)
   \<and> prIn ''org/a'' \<in> set (concat discoveryAuthored)
   \<and> prIn ''org/a'' \<in> set (concat discoveryCommented)
   \<and> prIn ''org/a'' \<in> set (concat discoveryReviewed)
   \<and> discovers aliceConfig (prIn ''org/a'')
   \<and> parseRepoURL (RepositoryURL (prIn ''org/a'')) = ''org/a''
   \<and> distinct [''org/a'', ''org/b'', ''org/d'']
   \<and> count_list [''org/a'', ''org/b'', ''org/d''] ''org/a'' = 1"
proof -
  have q1: "\<forall>l p. SearchIssues discoveryClient l (authoredQuery aliceConfig ''alice'') p
               = pagedList discoveryAuthored p"
    by (simp add: discoveryClient_def authoredQuery_def aliceConfig_def)
  have q2: "\<forall>l p. SearchIssues discoveryClient l (commentedQuery aliceConfig ''alice'') p
               = pagedList discoveryCommented p"
    by (simp add: discoveryClient_def commentedQuery_def aliceConfig_def)
  have m1: "prIn ''org/a'' \<in> set (concat discoveryAuthored)"
    by (simp add: discoveryAuthored_def)
  have m2: "prIn ''org/a'' \<in> set (concat discoveryCommented)"
    by (simp add: discoveryCommented_def)
  have m3: "prIn ''org/a'' \<in> set (concat discoveryReviewed)"
    by (simp add: discoveryReviewed_def)
  have url: "parseRepoURL (RepositoryURL (prIn ''org/a'')) = ''org/a''"
    by (simp add: prIn_def parseRepoURL_def)
  have dis: "discovers aliceConfig (prIn ''org/a'')"
    unfolding discovers_def url by (simp add: prIn_def aliceConfig_def HasPrefix_def)
  from discovery_exactly_once [OF discovery_run, of discoveryAuthored discoveryCommented]
  have "distinct [''org/a'', ''org/b'', ''org/d'']
        \<and> count_list [''org/a'', ''org/b'', ''org/d''] (parseRepoURL (RepositoryURL (prIn ''org/a''))) = 1"
    using q1 m1 dis by blast
  then show ?thesis
    using discovery_run q1 q2 m1 m2 m3 dis url by simp
qed

text \<open>
  C7. With a non-empty organization filter, every identifier \<open>getUserRepositories\<close>
  returns is the organization, a slash and a name: its owner segment, as \<open>parseRepo\<close>
  reads it, is the configured organization.
\<close>

theorem discovery_respects_organization:
  assumes "organization cfg \<noteq> []"
      and "getUserRepositories cfg c user lg = Some (repos, lg')"
      and "r \<in> set repos"
  shows "fst (parseRepo r) = organization cfg
         \<and> r = organization cfg @ ''/'' @ snd (parseRepo r)"
proof -
  have "\<exists>m :: (string \<times> bool) list.
          (\<forall>r \<in> fst ` set m. inOrganization (organization cfg) r)
          \<and> repos = go_range (rangeSeed cfg user) (map fst m)"
  proof (rule getUserRepositories_invariant
           [where I = "\<lambda>m. \<forall>r \<in> fst ` set m. inOrganization (organization cfg) r", OF assms(2)])
    show "\<forall>r \<in> fst ` set ([] :: (string \<times> bool) list). inOrganization (organization cfg) r"
      by simp
    show "\<And>issue m. \<forall>r \<in> fst ` set m. inOrganization (organization cfg) r \<Longrightarrow>
            \<forall>r \<in> fst ` set (discoverIssue cfg issue m). inOrganization (organization cfg) r"
      by (rule discoverIssue_organization [OF assms(1)])
  qed
  with assms(3) have "inOrganization (organization cfg) r"
    by (auto simp: go_range_set)
  then obtain name where "r = organization cfg @ ''/'' @ name"
      "parseRepo r = (organization cfg, name)"
    using parseRepo_inOrganization by blast
  then show ?thesis by simp
qed

theorem discovery_respects_organization_witness:
  "organization aliceConfig \<noteq> []
   \<and> getUserRepositories aliceConfig discoveryClient ''alice'' [] = Some
     ([''org/a'', ''org/b'', ''org/d''],
      [SearchIssuesReq ''author:alice created:>2026-10-04 03:31:00 +0000 UTC'' 0,
       SearchIssuesReq ''commenter:alice created:>2026-10-04'' 0,
       SearchIssuesReq ''commenter:alice created:>2026-10-04'' 2,
       SearchIssuesReq ''reviewed-by:alice created:>2026-10-04'' 2])
   \<and> ''org/b'' \<in> set [''org/a'', ''org/b'', ''org/d'']
   \<and> fst (parseRepo ''org/b'') = ''org''
   \<and> ''org/b'' = ''org'' @ ''/'' @ snd (parseRepo ''org/b'')"
proof -
  have org: "organization aliceConfig \<noteq> []" by (simp add: aliceConfig_def)
  have mem: "''org/b'' \<in> set [''org/a'', ''org/b'', ''org/d'']" by simp
  have o: "organization aliceConfig = ''org''" by (simp add: aliceConfig_def)
  have "fst (parseRepo ''org/b'') = organization aliceConfig
        \<and> ''org/b'' = organization aliceConfig @ ''/'' @ snd (parseRepo ''org/b'')"
    by (rule discovery_respects_organization [OF org discovery_run mem])
  then show ?thesis using org mem discovery_run unfolding o by blast
qed

section \<open>The top repositories\<close>

text \<open>
  C8. The string of \<open>getTopRepos\<close> is the entries of \<open>topEntries\<close>, each formatted as
  name(lines), joined by a comma and a space. There are min(3, size of the map) of
  them, so at most 3; they are in descending order of lines touched, they are entries
  of the map, and no entry left out has more lines than one that is shown. For the nil
  and the empty map the string is empty.
\<close>

theorem top_repos:
  "getTopRepos seed repos = Join (map fmtRepo (topEntries seed repos)) '', ''
   \<and> length (topEntries seed repos) = min 3 (length (mapEntries repos))
   \<and> sorted_wrt (\<lambda>a b. sint (snd b) \<le> sint (snd a)) (topEntries seed repos)
   \<and> mset (topEntries seed repos) \<subseteq># mset (mapEntries repos)
   \<and> (\<forall>e \<in># mset (mapEntries repos) - mset (topEntries seed repos).
        \<forall>t \<in> set (topEntries seed repos). sint (snd e) \<le> sint (snd t))
   \<and> (mapEntries repos = [] \<longrightarrow> getTopRepos seed repos = [])"
proof -
  define key :: "string \<times> go_int \<Rightarrow> int" where "key = (\<lambda>a. sint (snd a))"
  define ys where "ys = sortSlice (\<lambda>a b. key a > key b) (go_range seed (mapEntries repos))"
  have top: "topEntries seed repos = take 3 ys"
    by (simp add: topEntries_def ys_def key_def mapEntries_def)
  have ms: "mset ys = mset (mapEntries repos)"
    by (simp add: ys_def sortSlice_mset go_range_mset)
  have len: "length ys = length (mapEntries repos)"
    using ms by (metis size_mset)
  have srt: "sorted_wrt (\<lambda>a b. key b \<le> key a) ys"
    unfolding ys_def by (rule sortSlice_sorted)
  have split: "ys = take 3 ys @ drop 3 ys" by simp
  have c2: "length (topEntries seed repos) = min 3 (length (mapEntries repos))"
    by (simp add: top len min.commute)
  have c3: "sorted_wrt (\<lambda>a b. sint (snd b) \<le> sint (snd a)) (topEntries seed repos)"
    using srt unfolding top key_def by (rule sorted_wrt_take)
  have msplit: "mset (mapEntries repos) = mset (take 3 ys) + mset (drop 3 ys)"
    using ms by (metis split mset_append)
  have c4: "mset (topEntries seed repos) \<subseteq># mset (mapEntries repos)"
    by (simp add: top msplit)
  have rest: "mset (mapEntries repos) - mset (take 3 ys) = mset (drop 3 ys)"
    by (simp add: msplit)
  have "\<forall>t \<in> set (take 3 ys). \<forall>e \<in> set (drop 3 ys). key e \<le> key t"
    using srt split by (metis sorted_wrt_append)
  then have c5: "\<forall>e \<in># mset (mapEntries repos) - mset (topEntries seed repos).
        \<forall>t \<in> set (topEntries seed repos). sint (snd e) \<le> sint (snd t)"
    by (simp add: top rest key_def)
  have c6: "mapEntries repos = [] \<longrightarrow> getTopRepos seed repos = []"
    using c2 by (auto simp: getTopRepos_def)
  show ?thesis
    using c2 c3 c4 c5 c6 by (simp add: getTopRepos_def)
qed

theorem top_repos_witness:
  "getTopRepos [1, 0] (Some [(''a/b'', 5), (''c/d'', 500), (''e/f'', - 3), (''g/h'', 77)])
     = ''c/d(500), g/h(77), a/b(5)''
   \<and> topEntries [1, 0] (Some [(''a/b'', 5), (''c/d'', 500), (''e/f'', - 3), (''g/h'', 77)])
     = [(''c/d'', 500), (''g/h'', 77), (''a/b'', 5)]
   \<and> getTopRepos [] None = []"
  using top_repos [of "[1, 0]" "Some [(''a/b'', 5), (''c/d'', 500), (''e/f'', - 3), (''g/h'', 77)]"]
    top_repos [of "[]" None]
  by (simp add: topEntries_def sortSlice_def fmtRepo_def fmt_d_def mapEntries_def)

section \<open>Pagination\<close>

text \<open>
  C9 (as amended). When each listing a collector reads is served from N pages, the
  last one announcing no next page, every one of the seven collectors returns after
  exactly max(N, 1) page requests: N requests for N of at least 1, and one request
  when there is no page at all. With no results in the pages it returns 0 (0.0 for
  the lifecycle average). For \<open>getReviews\<close> under verbose logging this needs
  every result to carry a close timestamp, which its log line reads.
\<close>

theorem collectors_page_requests:
  assumes "\<And>l p. ListCommits c l owner repo user p = pagedList commitPgs p"
      and "\<And>l sha. GetCommit c l owner repo sha = details sha"
      and "\<And>l p. ListByRepo c l owner repo user [] p = pagedList issuePgs p"
      and "\<And>l p. ListByRepo c l owner repo user ''closed'' p = pagedList closedPgs p"
      and "\<And>l p. SearchIssues c l (msgsQuery cfg owner repo user) p = pagedList msgPgs p"
      and "\<And>l p. SearchIssues c l (pullsQuery cfg owner repo user) p = pagedList pullPgs p"
      and "\<And>l p. SearchIssues c l (reviewsQuery cfg owner repo user) p = pagedList reviewPgs p"
      and "verbose cfg \<longrightarrow> (\<forall>issue \<in> set (concat reviewPgs). ClosedAt issue \<noteq> None)"
  shows "(\<exists>v tr. getCommits c owner repo user lg = Some (Inr v, lg @ tr)
            \<and> length (filter isPageRequest tr) = max 1 (length commitPgs)
            \<and> (concat commitPgs = [] \<longrightarrow> v = 0))
       \<and> (\<exists>v tr. getHoC c owner repo user lg = Some (Inr v, lg @ tr)
            \<and> length (filter isPageRequest tr) = max 1 (length commitPgs)
            \<and> (concat commitPgs = [] \<longrightarrow> v = 0))
       \<and> (\<exists>v tr. getIssues c owner repo user lg = Some (Inr v, lg @ tr)
            \<and> length (filter isPageRequest tr) = max 1 (length issuePgs)
            \<and> (concat issuePgs = [] \<longrightarrow> v = 0))
       \<and> (\<exists>v tr. getLcP c owner repo user lg = Some (Inr v, lg @ tr)
            \<and> length (filter isPageRequest tr) = max 1 (length closedPgs)
            \<and> (concat closedPgs = [] \<longrightarrow> v = 0))
       \<and> (\<exists>v tr. getMsgs cfg c owner repo user lg = Some (Inr v, lg @ tr)
            \<and> length (filter isPageRequest tr) = max 1 (length msgPgs)
            \<and> (concat msgPgs = [] \<longrightarrow> v = 0))
       \<and> (\<exists>v tr. getPulls cfg c owner repo user lg = Some (Inr v, lg @ tr)
            \<and> length (filter isPageRequest tr) = max 1 (length pullPgs)
            \<and> (concat pullPgs = [] \<longrightarrow> v = 0))
       \<and> (\<exists>v tr. getReviews cfg c owner repo user lg = Some (Inr v, lg @ tr)
            \<and> length (filter isPageRequest tr) = max 1 (length reviewPgs)
            \<and> (concat reviewPgs = [] \<longrightarrow> v = 0))"
proof -
  have c1: "\<exists>v tr. getCommits c owner repo user lg = Some (Inr v, lg @ tr)
            \<and> length (filter isPageRequest tr) = max 1 (length commitPgs)
            \<and> (concat commitPgs = [] \<longrightarrow> v = 0)"
    using getCommits_paged [OF assms(1), of lg] by (auto simp del: concat_eq_Nil_conv)
  have c2: "\<exists>v tr. getHoC c owner repo user lg = Some (Inr v, lg @ tr)
            \<and> length (filter isPageRequest tr) = max 1 (length commitPgs)
            \<and> (concat commitPgs = [] \<longrightarrow> v = 0)"
    using getHoC_paged [OF assms(1,2), of lg] by (auto simp del: concat_eq_Nil_conv)
  have c3: "\<exists>v tr. getIssues c owner repo user lg = Some (Inr v, lg @ tr)
            \<and> length (filter isPageRequest tr) = max 1 (length issuePgs)
            \<and> (concat issuePgs = [] \<longrightarrow> v = 0)"
    using getIssues_paged [OF assms(3), of lg] by (auto simp del: concat_eq_Nil_conv)
  have c4: "\<exists>v tr. getLcP c owner repo user lg = Some (Inr v, lg @ tr)
            \<and> length (filter isPageRequest tr) = max 1 (length closedPgs)
            \<and> (concat closedPgs = [] \<longrightarrow> v = 0)"
    using getLcP_paged [OF assms(4), of lg] lcp_empty by (auto simp del: concat_eq_Nil_conv)
  have c5: "\<exists>v tr. getMsgs cfg c owner repo user lg = Some (Inr v, lg @ tr)
            \<and> length (filter isPageRequest tr) = max 1 (length msgPgs)
            \<and> (concat msgPgs = [] \<longrightarrow> v = 0)"
    using getMsgs_paged [OF assms(5), of lg] by (auto simp del: concat_eq_Nil_conv)
  have c6: "\<exists>v tr. getPulls cfg c owner repo user lg = Some (Inr v, lg @ tr)
            \<and> length (filter isPageRequest tr) = max 1 (length pullPgs)
            \<and> (concat pullPgs = [] \<longrightarrow> v = 0)"
    using getPulls_paged [OF assms(6), of lg] by (auto simp del: concat_eq_Nil_conv)
  have c7: "\<exists>v tr. getReviews cfg c owner repo user lg = Some (Inr v, lg @ tr)
            \<and> length (filter isPageRequest tr) = max 1 (length reviewPgs)
            \<and> (concat reviewPgs = [] \<longrightarrow> v = 0)"
    using getReviews_paged [OF assms(7,8), of lg] by (auto simp del: concat_eq_Nil_conv)
  from c1 c2 c3 c4 c5 c6 c7 show ?thesis by blast
qed


theorem collectors_page_requests_witness:
  "(\<forall>l p. ListCommits (pagedClient mergePages aliceDetails issuePages) l
              ''org'' ''repo'' ''alice'' p = pagedList mergePages p)
   \<and> (\<forall>l sha. GetCommit (pagedClient mergePages aliceDetails issuePages) l
              ''org'' ''repo'' sha = aliceDetails sha)
   \<and> (\<forall>l p. ListByRepo (pagedClient mergePages aliceDetails issuePages) l
              ''org'' ''repo'' ''alice'' [] p = pagedList issuePages p)
   \<and> (\<forall>l p. ListByRepo (pagedClient mergePages aliceDetails issuePages) l
              ''org'' ''repo'' ''alice'' ''closed'' p = pagedList issuePages p)
   \<and> (\<forall>l p. SearchIssues (pagedClient mergePages aliceDetails issuePages) l
              (msgsQuery aliceConfig ''org'' ''repo'' ''alice'') p = pagedList issuePages p)
   \<and> (\<forall>l p. SearchIssues (pagedClient mergePages aliceDetails issuePages) l
              (pullsQuery aliceConfig ''org'' ''repo'' ''alice'') p = pagedList issuePages p)
   \<and> (\<forall>l p. SearchIssues (pagedClient mergePages aliceDetails issuePages) l
              (reviewsQuery aliceConfig ''org'' ''repo'' ''alice'') p = pagedList issuePages p)
   \<and> \<not> verbose aliceConfig
   \<and> (\<exists>v tr. getCommits (pagedClient mergePages aliceDetails issuePages)
                  ''org'' ''repo'' ''alice'' [] = Some (Inr v, tr)
               \<and> length (filter isPageRequest tr) = 2)
   \<and> (\<exists>v tr. getHoC (pagedClient mergePages aliceDetails issuePages)
                  ''org'' ''repo'' ''alice'' [] = Some (Inr v, tr)
               \<and> length (filter isPageRequest tr) = 2)
   \<and> (\<exists>v tr. getIssues (pagedClient mergePages aliceDetails issuePages)
                  ''org'' ''repo'' ''alice'' [] = Some (Inr v, tr)
               \<and> length (filter isPageRequest tr) = 2)
   \<and> (\<exists>v tr. getLcP (pagedClient mergePages aliceDetails issuePages)
                  ''org'' ''repo'' ''alice'' [] = Some (Inr v, tr)
               \<and> length (filter isPageRequest tr) = 2)
   \<and> (\<exists>v tr. getMsgs aliceConfig (pagedClient mergePages aliceDetails issuePages)
                  ''org'' ''repo'' ''alice'' [] = Some (Inr v, tr)
               \<and> length (filter isPageRequest tr) = 2)
   \<and> (\<exists>v tr. getPulls aliceConfig (pagedClient mergePages aliceDetails issuePages)
                  ''org'' ''repo'' ''alice'' [] = Some (Inr v, tr)
               \<and> length (filter isPageRequest tr) = 2)
   \<and> (\<exists>v tr. getReviews aliceConfig (pagedClient mergePages aliceDetails issuePages)
                  ''org'' ''repo'' ''alice'' [] = Some (Inr v, tr)
               \<and> length (filter isPageRequest tr) = 2)"
proof -
  let ?c = "pagedClient mergePages aliceDetails issuePages"
  have h1: "\<And>l p. ListCommits ?c l ''org'' ''repo'' ''alice'' p = pagedList mergePages p"
    by (simp add: pagedClient_def)
  have h2: "\<And>l sha. GetCommit ?c l ''org'' ''repo'' sha = aliceDetails sha"
    by (simp add: pagedClient_def)
  have h3: "\<And>l p. ListByRepo ?c l ''org'' ''repo'' ''alice'' [] p = pagedList issuePages p"
    by (simp add: pagedClient_def)
  have h4: "\<And>l p. ListByRepo ?c l ''org'' ''repo'' ''alice'' ''closed'' p = pagedList issuePages p"
    by (simp add: pagedClient_def)
  have h5: "\<And>l p. SearchIssues ?c l (msgsQuery aliceConfig ''org'' ''repo'' ''alice'') p
              = pagedList issuePages p"
    by (simp add: pagedClient_def)
  have h6: "\<And>l p. SearchIssues ?c l (pullsQuery aliceConfig ''org'' ''repo'' ''alice'') p
              = pagedList issuePages p"
    by (simp add: pagedClient_def)
  have h7: "\<And>l p. SearchIssues ?c l (reviewsQuery aliceConfig ''org'' ''repo'' ''alice'') p
              = pagedList issuePages p"
    by (simp add: pagedClient_def)
  have v: "\<not> verbose aliceConfig" by (simp add: aliceConfig_def)
  then have h8: "verbose aliceConfig \<longrightarrow> (\<forall>issue \<in> set (concat issuePages). ClosedAt issue \<noteq> None)"
    by simp
  have n1: "max 1 (length mergePages) = 2" by (simp add: mergePages_def)
  have n2: "max 1 (length issuePages) = 2" by (simp add: issuePages_def)
  from collectors_page_requests [OF h1 h2 h3 h4 h5 h6 h7 h8, of "[]"]
  have "(\<exists>v tr. getCommits ?c ''org'' ''repo'' ''alice'' [] = Some (Inr v, tr)
               \<and> length (filter isPageRequest tr) = 2)
   \<and> (\<exists>v tr. getHoC ?c ''org'' ''repo'' ''alice'' [] = Some (Inr v, tr)
               \<and> length (filter isPageRequest tr) = 2)
   \<and> (\<exists>v tr. getIssues ?c ''org'' ''repo'' ''alice'' [] = Some (Inr v, tr)
               \<and> length (filter isPageRequest tr) = 2)
   \<and> (\<exists>v tr. getLcP ?c ''org'' ''repo'' ''alice'' [] = Some (Inr v, tr)
               \<and> length (filter isPageRequest tr) = 2)
   \<and> (\<exists>v tr. getMsgs aliceConfig ?c ''org'' ''repo'' ''alice'' [] = Some (Inr v, tr)
               \<and> length (filter isPageRequest tr) = 2)
   \<and> (\<exists>v tr. getPulls aliceConfig ?c ''org'' ''repo'' ''alice'' [] = Some (Inr v, tr)
               \<and> length (filter isPageRequest tr) = 2)
   \<and> (\<exists>v tr. getReviews aliceConfig ?c ''org'' ''repo'' ''alice'' [] = Some (Inr v, tr)
               \<and> length (filter isPageRequest tr) = 2)"
    unfolding n1 n2 by (simp only: append_Nil) blast
  with h1 h2 h3 h4 h5 h6 h7 v show ?thesis by blast
qed

text \<open>
  C9 as stated fails for N = 0: a collector asks for the first page before it knows
  that there is none, so a listing of zero pages costs one request, not zero.
\<close>

theorem zero_pages_counterexample:
  "getCommits (pagedClient [] noDetails []) ''org'' ''repo'' ''alice'' []
     = Some (Inr 0, [ListCommitsReq ''org'' ''repo'' ''alice'' 0])
   \<and> length (filter isPageRequest [ListCommitsReq ''org'' ''repo'' ''alice'' 0])
       \<noteq> length ([] :: RepositoryCommit list list)"
  by (simp add: getCommits_def leave_def paginate.simps pureBody_def callListCommits_def
      pagedClient_def pagedList_def eval_nat_numeral)

section \<open>The per-repository map\<close>




end
